theory Spec2Isabelle
  imports Main "HOL-Library.AList"
begin

section \<open>pyaxel: a parallel, resumable HTTP downloader\<close>

text \<open>
  A shallow embedding of \<^verbatim>\<open>src/pyaxel/axel.py\<close> (Python 2: \<^verbatim>\<open>xrange\<close>, and \<^verbatim>\<open>/\<close> on
  integers is floor division). Python integers are \<^typ>\<open>int\<close>, byte strings are
  \<^typ>\<open>string\<close>, the object \<^verbatim>\<open>self\<close> is a record that every method takes and returns,
  and everything outside the process (the server, the directory, standard output) is a
  record \<open>world\<close> threaded through the methods. A raised exception is the left
  summand of the result.

  What the libraries do is part of the model and is stated where it is used: the
  replies of \<^verbatim>\<open>requests\<close> and the result of \<^verbatim>\<open>glob.glob\<close> are given by the world,
  \<^verbatim>\<open>os.path\<close> and \<^verbatim>\<open>fileinput\<close> are functions on strings and on the directory, and a
  \<^verbatim>\<open>gevent\<close> pool runs its greenlets to their ends without passing their exceptions
  on. Files are read and written as bytes (text mode on POSIX); permissions and
  resource limits are not modelled.
\<close>

subsection \<open>Strings and numbers\<close>

type_synonym bytes = string

datatype error =
    ZeroDivisionError
  | ValueError
  | TypeError
  | IndexError
  | RequestException
  | OSError
  | IOError
  | SystemExit int
  | BlocksForever

text \<open>\<^verbatim>\<open>'%s' % n\<close> for an integer: its decimal digits, with a sign when negative.\<close>

definition digit_char :: "nat \<Rightarrow> char" where
  "digit_char d = ''0123456789'' ! d"

fun dec :: "nat \<Rightarrow> string" where
  "dec n = (if n < 10 then [digit_char n] else dec (n div 10) @ [digit_char (n mod 10)])"

declare dec.simps [simp del]

definition str_int :: "int \<Rightarrow> string" where
  "str_int i = (if i < 0 then CHR ''-'' # dec (nat (- i)) else dec (nat i))"

text \<open>\<^verbatim>\<open>'%03d' % i\<close> for an index \<open>i \<ge> 0\<close>: zero-padded to three digits, longer when needed.\<close>

definition pad3 :: "nat \<Rightarrow> string" where
  "pad3 i = replicate (3 - length (dec i)) CHR ''0'' @ dec i"

text \<open>\<^verbatim>\<open>str.isdigit\<close> on a byte string, and \<^verbatim>\<open>int\<close> on a string of digits.\<close>

definition is_digit_char :: "char \<Rightarrow> bool" where
  "is_digit_char c = (c \<in> set ''0123456789'')"

definition isdigit :: "string \<Rightarrow> bool" where
  "isdigit s = (s \<noteq> [] \<and> list_all is_digit_char s)"

definition digit_val :: "char \<Rightarrow> nat" where
  "digit_val c = of_char c - 48"

definition int_of_digits :: "string \<Rightarrow> nat" where
  "int_of_digits s = foldl (\<lambda>a c. 10 * a + digit_val c) 0 s"

text \<open>
  \<^verbatim>\<open>int(s)\<close> on a header value: surrounding whitespace is stripped, one sign is allowed,
  the rest must be decimal digits; anything else raises \<^verbatim>\<open>ValueError\<close> (here \<open>None\<close>).
\<close>

definition is_space :: "char \<Rightarrow> bool" where
  "is_space c = (of_char c \<in> {9, 10, 11, 12, 13, 32 :: nat})"

definition strip :: "string \<Rightarrow> string" where
  "strip s = rev (dropWhile is_space (rev (dropWhile is_space s)))"

definition py_int :: "string \<Rightarrow> int option" where
  "py_int s =
     (case strip s of
        [] \<Rightarrow> None
      | c # cs \<Rightarrow>
          if c = CHR ''-'' then (if isdigit cs then Some (- int (int_of_digits cs)) else None)
          else if c = CHR ''+'' then (if isdigit cs then Some (int (int_of_digits cs)) else None)
          else if isdigit (c # cs) then Some (int (int_of_digits (c # cs)))
          else None)"

subsection \<open>\<^verbatim>\<open>os.path\<close>\<close>

text \<open>\<^verbatim>\<open>os.path.basename\<close>: what follows the last slash.\<close>

definition basename :: "string \<Rightarrow> string" where
  "basename p = rev (takeWhile (\<lambda>c. c \<noteq> CHR ''/'') (rev p))"

definition dirpart :: "string \<Rightarrow> string" where
  "dirpart p = rev (dropWhile (\<lambda>c. c \<noteq> CHR ''/'') (rev p))"

text \<open>
  \<^verbatim>\<open>os.path.splitext\<close>: the extension starts at the last dot of the final path
  component, unless only dots stand before that dot in the component (leading dots
  belong to the name), in which case there is no extension.
\<close>

definition split_name :: "string \<Rightarrow> string \<times> string" where
  "split_name b =
     (if CHR ''.'' \<in> set b then
        (let tail = rev (takeWhile (\<lambda>c. c \<noteq> CHR ''.'') (rev b));
             root = take (length b - length tail - 1) b
         in if list_ex (\<lambda>c. c \<noteq> CHR ''.'') root then (root, CHR ''.'' # tail) else (b, []))
      else (b, []))"

definition splitext :: "string \<Rightarrow> string \<times> string" where
  "splitext p = (case split_name (basename p) of (root, ext) \<Rightarrow> (dirpart p @ root, ext))"

subsection \<open>The output file name (\<^verbatim>\<open>get_file_info\<close>, lines 80-87)\<close>

text \<open>
  The directory is an association list from file names to contents; only regular files
  are in it, so \<^verbatim>\<open>os.path.isfile\<close> is membership.
\<close>

type_synonym dir = "(string \<times> bytes) list"

definition isfile :: "dir \<Rightarrow> string \<Rightarrow> bool" where
  "isfile d n = (map_of d n \<noteq> None)"

text \<open>One turn of the loop body: the next candidate name.\<close>

definition next_filename :: "string \<Rightarrow> string" where
  "next_filename fn =
     (case splitext fn of
        (prefix, ext) \<Rightarrow>
          if isdigit (drop 1 ext)
          then prefix @ ''.'' @ str_int (int (int_of_digits (drop 1 ext)) + 1)
          else fn @ ''.0'')"

subsection \<open>Facts about the string functions\<close>

lemma digit_char_is_digit: "d < 10 \<Longrightarrow> is_digit_char (digit_char d)"
  by (simp add: digit_char_def is_digit_char_def nth_Cons' )

lemma digit_val_digit_char: "d < 10 \<Longrightarrow> digit_val (digit_char d) = d"
proof -
  assume "d < 10"
  then have "d \<in> {0,1,2,3,4,5,6,7,8,9}" by auto
  then show ?thesis by (auto simp: digit_char_def digit_val_def)
qed

lemma dec_digits: "list_all is_digit_char (dec n)"
  by (induction n rule: dec.induct) (subst dec.simps, simp add: digit_char_is_digit)

lemma dec_nonempty: "dec n \<noteq> []"
  by (subst dec.simps) simp

lemma isdigit_dec: "isdigit (dec n)"
  by (simp add: isdigit_def dec_digits dec_nonempty)

lemma int_of_digits_snoc: "int_of_digits (s @ [c]) = 10 * int_of_digits s + digit_val c"
  by (simp add: int_of_digits_def)

lemma int_of_digits_dec: "int_of_digits (dec n) = n"
proof (induction n rule: dec.induct)
  case (1 n)
  show ?case
  proof (cases "n < 10")
    case True
    then show ?thesis by (subst dec.simps) (simp add: int_of_digits_def digit_val_digit_char)
  next
    case False
    with 1 show ?thesis
      by (subst dec.simps) (simp add: int_of_digits_snoc digit_val_digit_char)
  qed
qed

lemma basename_no_slash: "CHR ''/'' \<notin> set (basename p)"
  by (auto simp: basename_def dest: set_takeWhileD)

lemma dir_base: "dirpart p @ basename p = p"
proof -
  have "rev (basename p) @ rev (dirpart p) = rev p"
    by (simp add: basename_def dirpart_def)
  then have "rev (dirpart p @ basename p) = rev p" by simp
  then show ?thesis using rev_is_rev_conv by blast
qed

lemma basename_append:
  assumes "CHR ''/'' \<notin> set x"
  shows "basename (p @ x) = basename p @ x"
proof -
  have "takeWhile (\<lambda>c. c \<noteq> CHR ''/'') (rev x @ rev p)
      = rev x @ takeWhile (\<lambda>c. c \<noteq> CHR ''/'') (rev p)"
    by (rule takeWhile_append2) (use assms in auto)
  then show ?thesis by (simp add: basename_def)
qed

lemma dirpart_append:
  assumes "CHR ''/'' \<notin> set x"
  shows "dirpart (p @ x) = dirpart p"
proof -
  have "dropWhile (\<lambda>c. c \<noteq> CHR ''/'') (rev x @ rev p)
      = dropWhile (\<lambda>c. c \<noteq> CHR ''/'') (rev p)"
    by (rule dropWhile_append2) (use assms in auto)
  then show ?thesis by (simp add: dirpart_def)
qed

lemma basename_dirpart: "basename (dirpart p) = []"
proof -
  have "takeWhile (\<lambda>c. c \<noteq> CHR ''/'') (dropWhile (\<lambda>c. c \<noteq> CHR ''/'') (rev p)) = []"
    by (metis (mono_tags, lifting) hd_dropWhile takeWhile.simps(1) takeWhile_eq_Nil_iff)
  then show ?thesis by (simp add: basename_def dirpart_def)
qed

lemma dirpart_dirpart: "dirpart (dirpart p) = dirpart p"
  using dir_base [of "dirpart p"] by (simp add: basename_dirpart)

lemma basename_dir_append: "CHR ''/'' \<notin> set x \<Longrightarrow> basename (dirpart p @ x) = x"
  by (simp add: basename_append basename_dirpart)

lemma dirpart_dir_append: "CHR ''/'' \<notin> set x \<Longrightarrow> dirpart (dirpart p @ x) = dirpart p"
  by (simp add: dirpart_append dirpart_dirpart)

lemma split_name_ext:
  assumes "CHR ''.'' \<notin> set ds" and "list_ex (\<lambda>c. c \<noteq> CHR ''.'') root"
  shows "split_name (root @ CHR ''.'' # ds) = (root, CHR ''.'' # ds)"
proof -
  have "takeWhile (\<lambda>c. c \<noteq> CHR ''.'') (rev ds @ CHR ''.'' # rev root)
      = rev ds @ takeWhile (\<lambda>c. c \<noteq> CHR ''.'') (CHR ''.'' # rev root)"
    by (rule takeWhile_append2) (use assms(1) in auto)
  then have "takeWhile (\<lambda>c. c \<noteq> CHR ''.'') (rev ds @ CHR ''.'' # rev root) = rev ds"
    by simp
  then show ?thesis using assms(2) by (simp add: split_name_def)
qed

lemma split_name_dots:
  assumes "CHR ''.'' \<notin> set ds" and "\<not> list_ex (\<lambda>c. c \<noteq> CHR ''.'') root"
  shows "split_name (root @ CHR ''.'' # ds) = (root @ CHR ''.'' # ds, [])"
proof -
  have "takeWhile (\<lambda>c. c \<noteq> CHR ''.'') (rev ds @ CHR ''.'' # rev root)
      = rev ds @ takeWhile (\<lambda>c. c \<noteq> CHR ''.'') (CHR ''.'' # rev root)"
    by (rule takeWhile_append2) (use assms(1) in auto)
  then have "takeWhile (\<lambda>c. c \<noteq> CHR ''.'') (rev ds @ CHR ''.'' # rev root) = rev ds"
    by simp
  then show ?thesis using assms(2) by (simp add: split_name_def)
qed

lemma split_name_shape:
  assumes "split_name b = (root, ext)" and "ext \<noteq> []"
  shows "\<exists>ds. ext = CHR ''.'' # ds \<and> CHR ''.'' \<notin> set ds \<and> b = root @ ext
            \<and> list_ex (\<lambda>c. c \<noteq> CHR ''.'') root"
proof -
  define tail where "tail = rev (takeWhile (\<lambda>c. c \<noteq> CHR ''.'') (rev b))"
  define r where "r = take (length b - length tail - 1) b"
  from assms have dot: "CHR ''.'' \<in> set b"
    by (auto simp: split_name_def split: if_splits)
  from assms dot have ex: "list_ex (\<lambda>c. c \<noteq> CHR ''.'') r" and root: "root = r" and ext: "ext = CHR ''.'' # tail"
    by (auto simp: split_name_def Let_def tail_def r_def split: if_splits)
  have nodot: "CHR ''.'' \<notin> set tail"
    by (auto simp: tail_def dest: set_takeWhileD)
  have "rev b = takeWhile (\<lambda>c. c \<noteq> CHR ''.'') (rev b) @ dropWhile (\<lambda>c. c \<noteq> CHR ''.'') (rev b)"
    by simp
  moreover have "dropWhile (\<lambda>c. c \<noteq> CHR ''.'') (rev b) \<noteq> []"
    using dot by (simp add: dropWhile_eq_Nil_conv)
  moreover have "hd (dropWhile (\<lambda>c. c \<noteq> CHR ''.'') (rev b)) = CHR ''.''"
    using hd_dropWhile [OF calculation(2)] by simp
  ultimately obtain rest where rb: "rev b = rev tail @ CHR ''.'' # rest"
    by (metis list.collapse rev_rev_ident tail_def)
  then have b: "b = rev rest @ CHR ''.'' # tail"
    by (metis rev.simps(2) rev_append rev_rev_ident append_assoc append_Cons append_Nil)
  then have "r = rev rest" by (simp add: r_def)
  with b root ext nodot ex show ?thesis by simp
qed

lemma split_name_noext: "split_name b = (root, []) \<Longrightarrow> root = b"
  by (auto simp: split_name_def Let_def split: if_splits)

text \<open>
  The loop of \<^verbatim>\<open>get_file_info\<close> ends because every turn raises the following rank of the
  candidate: 0 for a name of dots only, 1 for a name with no numeric extension, and
  \<open>2 + k\<close> for a name whose extension is the number \<open>k\<close>. Only finitely many files
  exist, so a candidate of high enough rank is free.
\<close>

definition name_rank :: "string \<Rightarrow> nat" where
  "name_rank fn =
     (case split_name (basename fn) of
        (root, ext) \<Rightarrow>
          if isdigit (drop 1 ext) then 2 + int_of_digits (drop 1 ext)
          else if list_ex (\<lambda>c. c \<noteq> CHR ''.'') (basename fn) then 1 else 0)"

lemma digit_not_dot_slash: "is_digit_char c \<Longrightarrow> c \<noteq> CHR ''.'' \<and> c \<noteq> CHR ''/''"
  by (auto simp: is_digit_char_def)

lemma dec_no_dot: "CHR ''.'' \<notin> set (dec n)"
  using dec_digits [of n] digit_not_dot_slash by (auto simp: list_all_iff)

lemma dec_no_slash: "CHR ''/'' \<notin> set (dec n)"
  using dec_digits [of n] digit_not_dot_slash by (auto simp: list_all_iff)

lemma str_int_nonneg: "0 \<le> i \<Longrightarrow> str_int i = dec (nat i)"
  by (simp add: str_int_def)

lemma next_filename_numeric:
  assumes "split_name (basename fn) = (root, ext)" and "isdigit (drop 1 ext)"
  shows "next_filename fn = dirpart fn @ root @ CHR ''.'' # dec (Suc (int_of_digits (drop 1 ext)))"
proof -
  have "nat (int (int_of_digits (drop 1 ext)) + 1) = Suc (int_of_digits (drop 1 ext))" by simp
  then show ?thesis using assms
    by (simp add: next_filename_def splitext_def str_int_nonneg)
qed

lemma next_filename_plain:
  assumes "split_name (basename fn) = (root, ext)" and "\<not> isdigit (drop 1 ext)"
  shows "next_filename fn = fn @ ''.0''"
  using assms by (simp add: next_filename_def splitext_def)

lemma name_rank_next: "name_rank fn < name_rank (next_filename fn)"
proof -
  obtain root ext where sp: "split_name (basename fn) = (root, ext)" by force
  show ?thesis
  proof (cases "isdigit (drop 1 ext)")
    case True
    then have "ext \<noteq> []" by (auto simp: isdigit_def)
    from split_name_shape [OF sp this] obtain ds where
      ext: "ext = CHR ''.'' # ds" and b: "basename fn = root @ ext"
      and ex: "list_ex (\<lambda>c. c \<noteq> CHR ''.'') root" by blast
    let ?k = "int_of_digits (drop 1 ext)"
    let ?tail = "root @ CHR ''.'' # dec (Suc ?k)"
    have "CHR ''/'' \<notin> set root" using basename_no_slash [of fn] b by auto
    then have ns: "CHR ''/'' \<notin> set ?tail" using dec_no_slash by auto
    have nf: "next_filename fn = dirpart fn @ ?tail"
      using next_filename_numeric [OF sp True] by simp
    have "basename (next_filename fn) = ?tail"
      unfolding nf by (rule basename_dir_append [OF ns])
    moreover have "split_name ?tail = (root, CHR ''.'' # dec (Suc ?k))"
      by (rule split_name_ext [OF dec_no_dot ex])
    ultimately have "name_rank (next_filename fn) = 2 + Suc ?k"
      by (simp add: name_rank_def isdigit_dec int_of_digits_dec)
    moreover have "name_rank fn = 2 + ?k" using sp True by (simp add: name_rank_def)
    ultimately show ?thesis by simp
  next
    case False
    have nf: "next_filename fn = fn @ ''.0''" by (rule next_filename_plain [OF sp False])
    have bn: "basename (next_filename fn) = basename fn @ ''.0''"
      unfolding nf by (rule basename_append) simp
    have d0: "isdigit ''0''" by (simp add: isdigit_def is_digit_char_def)
    show ?thesis
    proof (cases "list_ex (\<lambda>c. c \<noteq> CHR ''.'') (basename fn)")
      case True
      have "split_name (basename fn @ ''.0'') = (basename fn, ''.0'')"
        using split_name_ext [of "''0''" "basename fn"] True by simp
      then have "name_rank (next_filename fn) = 2 + int_of_digits ''0''"
        using bn d0 by (simp add: name_rank_def)
      moreover have "name_rank fn = 1" using sp False True by (simp add: name_rank_def)
      ultimately show ?thesis by simp
    next
      case nodots: False
      have "split_name (basename fn @ ''.0'') = (basename fn @ ''.0'', [])"
        using split_name_dots [of "''0''" "basename fn"] nodots by simp
      then have "name_rank (next_filename fn) = 1"
        using bn by (simp add: name_rank_def isdigit_def)
      moreover have "name_rank fn = 0" using sp False nodots by (simp add: name_rank_def)
      ultimately show ?thesis by simp
    qed
  qed
qed

text \<open>
  \<^verbatim>\<open>while os.path.isfile(self.filename): ...\<close> (lines 81-87).
\<close>

function choose_filename :: "dir \<Rightarrow> string \<Rightarrow> string" where
  "choose_filename d fn = (if isfile d fn then choose_filename d (next_filename fn) else fn)"
  by pat_completeness auto
termination
proof (relation "measure (\<lambda>(d, fn). card {n \<in> fst ` set d. name_rank fn \<le> name_rank n})")
  show "wf (measure (\<lambda>(d, fn). card {n \<in> fst ` set d. name_rank fn \<le> name_rank n}))"
    by simp
next
  fix d :: dir and fn :: string
  assume "isfile d fn"
  then have mem: "fn \<in> fst ` set d"
    by (auto simp: isfile_def dest: map_of_SomeD intro: rev_image_eqI)
  let ?A = "{n \<in> fst ` set d. name_rank (next_filename fn) \<le> name_rank n}"
  let ?B = "{n \<in> fst ` set d. name_rank fn \<le> name_rank n}"
  have "?A \<subseteq> ?B" using name_rank_next [of fn] by auto
  moreover have "fn \<in> ?B" "fn \<notin> ?A" using mem name_rank_next [of fn] by auto
  ultimately have "?A \<subset> ?B" by blast
  moreover have "finite ?B" by simp
  ultimately have "card ?A < card ?B" by (rule psubset_card_mono [rotated])
  then show "((d, next_filename fn), (d, fn))
      \<in> measure (\<lambda>(d, fn). card {n \<in> fst ` set d. name_rank fn \<le> name_rank n})"
    by simp
qed

declare choose_filename.simps [simp del]

lemma choose_filename_free: "\<not> isfile d (choose_filename d fn)"
  by (induction d fn rule: choose_filename.induct) (subst choose_filename.simps, simp)

subsection \<open>The world outside the process\<close>

text \<open>
  \<^verbatim>\<open>requests.head(url)\<close> raises, or answers with headers in which \<^verbatim>\<open>Content-Length\<close> is
  absent or has a value. \<^verbatim>\<open>requests.get(url, headers, stream=True)\<close> raises, or answers
  with a body that \<^verbatim>\<open>iter_content(4096)\<close> hands out block by block and that ends normally
  (\<open>False\<close>) or with an exception (\<open>True\<close>) after the last block. Every request is
  taken to end; a reply that never comes is not modelled.
\<close>

datatype head_result = HeadFails | Headers "string option"

datatype get_result = GetFails | Body "bytes list" bool

text \<open>
  \<open>get_reply w name (a, b)\<close> is what the worker that writes part file \<open>name\<close> receives
  for its request with header \<^verbatim>\<open>Range: bytes=a-b\<close>; \<open>glob_reply w p\<close> is what
  \<^verbatim>\<open>glob.glob(p)\<close> returns, in the order the directory is enumerated; \<open>cwd\<close> is the
  working directory; \<open>get_log\<close> records the ranged requests issued, in spawn order.
\<close>

record world =
  head_reply :: head_result
  get_reply :: "string \<Rightarrow> int \<times> int \<Rightarrow> get_result"
  glob_reply :: "string \<Rightarrow> string list"
  cwd :: dir
  stdin :: bytes
  stdout :: "string list"
  get_log :: "(string \<times> int \<times> int) list"

definition getsize :: "dir \<Rightarrow> string \<Rightarrow> int option" where
  "getsize d f = map_option (\<lambda>c. int (length c)) (map_of d f)"

text \<open>\<^verbatim>\<open>open(name, 'a')\<close> followed by writes: the file is created when it is missing.\<close>

definition append_file :: "string \<Rightarrow> bytes \<Rightarrow> dir \<Rightarrow> dir" where
  "append_file name data d =
     AList.update name ((case map_of d name of None \<Rightarrow> [] | Some old \<Rightarrow> old) @ data) d"

definition print :: "string \<Rightarrow> world \<Rightarrow> world" where
  "print s w = w\<lparr>stdout := stdout w @ [s]\<rparr>"

definition nl :: string where
  "nl = [CHR 0x0A]"

fun join :: "string \<Rightarrow> string list \<Rightarrow> string" where
  "join sep [] = []"
| "join sep [x] = x"
| "join sep (x # y # ys) = x @ sep @ join sep (y # ys)"

subsection \<open>The object\<close>

text \<open>
  The fields of \<^verbatim>\<open>Axel.__init__\<close> (lines 42-56); the timing fields \<^verbatim>\<open>speed\<close>,
  \<^verbatim>\<open>total_time\<close> and \<^verbatim>\<open>start\<close> are left out. A chunk that \<^verbatim>\<open>resume_check\<close> replaced by
  \<^verbatim>\<open>None\<close> is \<open>None\<close>; \<^verbatim>\<open>filename\<close> is \<^verbatim>\<open>None\<close> until \<^verbatim>\<open>get_file_info\<close> sets it.
\<close>

record axel =
  count :: int
  url :: string
  content_length :: int
  startcount :: "int list"
  filename :: "string option"
  chunk_size :: int
  chunks :: "(int \<times> int) option list"
  files :: "string list"

definition Axel :: "string \<Rightarrow> int \<Rightarrow> axel" where
  "Axel u c = \<lparr>count = c, url = u, content_length = 0, startcount = [], filename = None,
               chunk_size = 0, chunks = [], files = []\<rparr>"

text \<open>\<^verbatim>\<open>'%s' % self.filename\<close>.\<close>

definition fmt_s :: "string option \<Rightarrow> string" where
  "fmt_s x = (case x of None \<Rightarrow> ''None'' | Some s \<Rightarrow> s)"

subsection \<open>\<^verbatim>\<open>get_file_info\<close> (lines 69-87)\<close>

text \<open>The body of the loop of lines 73-78 for index \<open>i\<close>.\<close>

definition plan_chunk :: "int \<Rightarrow> int \<Rightarrow> int \<Rightarrow> int \<Rightarrow> int \<times> int" where
  "plan_chunk n len csize i =
     (let boundary = (if i = n - 1 then len else ((i + 1) * csize) - 1)
      in (i * csize, boundary))"

definition plan_chunks :: "int \<Rightarrow> int \<Rightarrow> (int \<times> int) list" where
  "plan_chunks len n = map (plan_chunk n len (len div n)) [0..n - 1]"

definition get_file_info :: "axel \<Rightarrow> world \<Rightarrow> (error + axel) \<times> world" where
  "get_file_info a w =
     (case head_reply w of
        HeadFails \<Rightarrow> (Inl RequestException, w)
      | Headers h \<Rightarrow>
          (case (case h of None \<Rightarrow> Some 0 | Some v \<Rightarrow> py_int v) of
             None \<Rightarrow> (Inl ValueError, w)
           | Some len \<Rightarrow>
               if count a = 0 then (Inl ZeroDivisionError, w)
               else
                 (Inr (a\<lparr>content_length := len,
                          chunk_size := len div count a,
                          chunks := chunks a @ map Some (plan_chunks len (count a)),
                          filename := Some (choose_filename (cwd w) (basename (url a)))\<rparr>),
                  w)))"

subsection \<open>\<^verbatim>\<open>resume_check\<close> (lines 89-123)\<close>

definition nth_opt :: "'a list \<Rightarrow> nat \<Rightarrow> 'a option" where
  "nth_opt xs i = (if i < length xs then Some (xs ! i) else None)"

text \<open>
  The loop of lines 94-112 over \<^verbatim>\<open>enumerate(globs)\<close>, from index \<open>i\<close> on: \<open>fs\<close> are the
  names still to visit, \<open>new_chunks\<close> and \<open>sc\<close> the lists built so far (\<open>sc\<close> is
  \<^verbatim>\<open>self.startcount\<close>). Of the list \<^verbatim>\<open>sizes\<close> only the last entry is ever read: it is
  \<open>sz\<close>. \<^verbatim>\<open>sys.exit(1)\<close> raises \<^verbatim>\<open>SystemExit\<close>.
\<close>

fun resume_loop ::
  "axel \<Rightarrow> string list \<Rightarrow> nat \<Rightarrow> string list \<Rightarrow> (int \<times> int) option list \<Rightarrow> int list \<Rightarrow> world
    \<Rightarrow> (error + (int \<times> int) option list \<times> int list) \<times> world" where
  "resume_loop a globs i [] new_chunks sc w = (Inr (new_chunks, sc), w)"
| "resume_loop a globs i (f # fs) new_chunks sc w =
     (case getsize (cwd w) f of
        None \<Rightarrow> (Inl OSError, w)
      | Some sz \<Rightarrow>
          if sz = chunk_size a
          then resume_loop a globs (Suc i) fs (new_chunks @ [None]) (sc @ [sz]) w
          else
            (case nth_opt (chunks a) i of
               None \<Rightarrow> (Inl IndexError, w)
             | Some None \<Rightarrow> (Inl TypeError, w)
             | Some (Some (c0, c1)) \<Rightarrow>
                 if sz \<noteq> c1 \<and> sz < chunk_size a
                 then resume_loop a globs (Suc i) fs
                        (new_chunks @ [Some (c0 + sz, ((int i + 1) * chunk_size a) - 1)])
                        (sc @ [sz]) w
                 else
                   (Inl (SystemExit 1),
                    print (''    '' @ join (nl @ ''    '') globs)
                      (print ''partial files already exist, and do not match the size range''
                        (print (str_int sz @ '' < '' @ str_int (c1 - c0)) w)))))"

definition resume_check :: "axel \<Rightarrow> world \<Rightarrow> (error + axel) \<times> world" where
  "resume_check a w =
     (let globs = glob_reply w (fmt_s (filename a) @ ''.part*'') in
      if int (length globs) = count a then
        (case resume_loop a globs 0 globs [] (startcount a) w of
           (Inl e, w') \<Rightarrow> (Inl e, w')
         | (Inr (new_chunks, sc), w') \<Rightarrow>
             (Inr (a\<lparr>chunks := new_chunks, startcount := sc\<rparr>),
              print (''partial files already exist and match count ('' @ str_int (count a)
                     @ ''). There is the posibility of creating a non working file. ''
                     @ ''Please check hashes after download completion'' @ nl) w'))
      else if globs \<noteq> [] then
        (Inl (SystemExit 1),
         print (nl @ ''Try setting --count '' @ str_int (int (length globs)))
           (print (''    '' @ join (nl @ ''    '') globs)
             (print (''partial files already exist, and do not match the count (''
                     @ str_int (count a) @ '') specified:'') w)))
      else (Inr a, w))"

subsection \<open>\<^verbatim>\<open>getter\<close> (lines 134-145)\<close>

text \<open>
  The loop of lines 140-145 over the blocks of the body: an empty block ends it, the
  others are written. The result is what was written, and whether the loop was left by
  \<^verbatim>\<open>break\<close> (so that a failure at the end of the body is never met).
\<close>

fun write_blocks :: "bytes list \<Rightarrow> bytes \<times> bool" where
  "write_blocks [] = ([], False)"
| "write_blocks (block # rest) =
     (if block = [] then ([], True)
      else (case write_blocks rest of (data, broke) \<Rightarrow> (block @ data, broke)))"

definition getter :: "axel \<Rightarrow> string \<Rightarrow> int \<times> int \<Rightarrow> world \<Rightarrow> (error + unit) \<times> world" where
  "getter a name chunk w =
     (let w1 = w\<lparr>get_log := get_log w @ [(name, chunk)]\<rparr> in
      case get_reply w name chunk of
        GetFails \<Rightarrow> (Inl RequestException, w1)
      | Body blocks fails \<Rightarrow>
          (case write_blocks blocks of
             (data, broke) \<Rightarrow>
               (if fails \<and> \<not> broke then Inl RequestException else Inr (),
                w1\<lparr>cwd := append_file name data (cwd w1)\<rparr>)))"

subsection \<open>\<^verbatim>\<open>fetch\<close> (lines 166-188)\<close>

text \<open>\<^verbatim>\<open>'%s.part%03d' % (self.filename, i)\<close>.\<close>

definition part_name :: "string option \<Rightarrow> nat \<Rightarrow> string" where
  "part_name fn i = fmt_s fn @ ''.part'' @ pad3 i"

text \<open>
  The loop of lines 178-182, from index \<open>i\<close> on. \<^verbatim>\<open>p.spawn\<close> starts a greenlet for
  \<^verbatim>\<open>getter\<close>; \<^verbatim>\<open>p.join()\<close> waits for all of them and, called without \<^verbatim>\<open>raise_error\<close>,
  does not re-raise what a greenlet raised: the exception ends that greenlet alone, so
  the result of \<open>getter\<close> is dropped and only its effect on the world is kept. Each
  greenlet writes a part file of its own, so their interleaving does not show in the
  files; the model runs them in spawn order. A pool of size 0 never lets \<^verbatim>\<open>spawn\<close>
  return. The progress greenlet (\<^verbatim>\<open>print_progress\<close>, lines 147-164) only reads
  \<^verbatim>\<open>bytecount\<close> and draws; it and \<^verbatim>\<open>bytecount\<close> are left out.
\<close>

fun spawn_loop ::
  "axel \<Rightarrow> nat \<Rightarrow> (int \<times> int) option list \<Rightarrow> world \<Rightarrow> (error + axel) \<times> world" where
  "spawn_loop a i [] w = (Inr a, w)"
| "spawn_loop a i (c # cs) w =
     (let a' = a\<lparr>files := files a @ [part_name (filename a) i]\<rparr> in
      case c of
        None \<Rightarrow> spawn_loop a' (Suc i) cs w
      | Some chunk \<Rightarrow>
          if count a = 0 then (Inl BlocksForever, w)
          else spawn_loop a' (Suc i) cs (snd (getter a' (last (files a')) chunk w)))"

definition fetch :: "axel \<Rightarrow> world \<Rightarrow> (error + axel) \<times> world" where
  "fetch a w =
     (case (if content_length a = 0
            then (case get_file_info a w of
                    (Inl e, w1) \<Rightarrow> (Inl e, w1)
                  | (Inr a1, w1) \<Rightarrow> resume_check a1 w1)
            else (Inr a, w)) of
        (Inl e, w2) \<Rightarrow> (Inl e, w2)
      | (Inr a2, w2) \<Rightarrow>
          if count a2 < 0 then (Inl ValueError, w2)
          else
            (case spawn_loop a2 0 (chunks a2) w2 of
               (Inl e, w3) \<Rightarrow> (Inl e, w3)
             | (Inr a3, w3) \<Rightarrow> (Inr a3, print [] w3)))"

subsection \<open>\<^verbatim>\<open>stitch\<close> (lines 190-197)\<close>

text \<open>
  \<^verbatim>\<open>fileinput.input(files)\<close> hands out the lines of the files one after the other, each
  with its line end; an empty list of files, and the name \<^verbatim>\<open>-\<close>, stand for standard
  input. A file is opened when its turn comes, so a missing one raises \<^verbatim>\<open>IOError\<close> only
  after the files before it have been copied.
\<close>

fun lines_from :: "bytes \<Rightarrow> bytes \<Rightarrow> bytes list" where
  "lines_from cur [] = (if cur = [] then [] else [cur])"
| "lines_from cur (c # cs) =
     (if c = CHR 0x0A then (cur @ [c]) # lines_from [] cs else lines_from (cur @ [c]) cs)"

definition read_input :: "world \<Rightarrow> string \<Rightarrow> bytes option" where
  "read_input w f = (if f = ''-'' then Some (stdin w) else map_of (cwd w) f)"

fun write_lines :: "string \<Rightarrow> bytes list \<Rightarrow> dir \<Rightarrow> dir" where
  "write_lines out [] d = d"
| "write_lines out (block # rest) d = write_lines out rest (append_file out block d)"

fun copy_files :: "string \<Rightarrow> string list \<Rightarrow> world \<Rightarrow> (error + unit) \<times> world" where
  "copy_files out [] w = (Inr (), w)"
| "copy_files out (f # fs) w =
     (case read_input w f of
        None \<Rightarrow> (Inl IOError, w)
      | Some content \<Rightarrow>
          copy_files out fs (w\<lparr>cwd := write_lines out (lines_from [] content) (cwd w)\<rparr>))"

fun unlink_all :: "string list \<Rightarrow> world \<Rightarrow> (error + unit) \<times> world" where
  "unlink_all [] w = (Inr (), w)"
| "unlink_all (f # fs) w =
     (if isfile (cwd w) f then unlink_all fs (w\<lparr>cwd := AList.delete f (cwd w)\<rparr>)
      else (Inl OSError, w))"

text \<open>
  \<^verbatim>\<open>open(self.filename, 'w')\<close> creates the file or empties it. In a directory of regular
  files the names \<^verbatim>\<open>''\<close>, \<^verbatim>\<open>.\<close> and \<^verbatim>\<open>..\<close> cannot be opened for writing.
\<close>

definition openable :: "string \<Rightarrow> bool" where
  "openable n = (n \<noteq> [] \<and> n \<noteq> ''.'' \<and> n \<noteq> ''..'')"

definition stitch :: "axel \<Rightarrow> world \<Rightarrow> (error + axel) \<times> world" where
  "stitch a w =
     (case filename a of
        None \<Rightarrow> (Inl TypeError, w)
      | Some out \<Rightarrow>
          if \<not> openable out then (Inl IOError, w)
          else
            (case copy_files out (if files a = [] then [''-''] else files a)
                    (w\<lparr>cwd := AList.update out [] (cwd w)\<rparr>) of
               (Inl e, w1) \<Rightarrow> (Inl e, w1)
             | (Inr u, w1) \<Rightarrow>
                 (case unlink_all (files a) w1 of
                    (Inl e, w2) \<Rightarrow> (Inl e, w2)
                  | (Inr u', w2) \<Rightarrow> (Inr a, w2))))"

subsection \<open>\<^verbatim>\<open>fetch_n_stitch\<close> and \<^verbatim>\<open>main\<close> (lines 199-213)\<close>

definition fetch_n_stitch :: "axel \<Rightarrow> world \<Rightarrow> (error + axel) \<times> world" where
  "fetch_n_stitch a w =
     (case fetch a w of
        (Inl e, w1) \<Rightarrow> (Inl e, w1)
      | (Inr a1, w1) \<Rightarrow> stitch a1 w1)"

text \<open>\<^verbatim>\<open>main\<close> with the parsed arguments \<open>u\<close> and \<open>c\<close>.\<close>

definition main :: "string \<Rightarrow> int \<Rightarrow> world \<Rightarrow> (error + axel) \<times> world" where
  "main u c w = fetch_n_stitch (Axel u c) w"

text \<open>
  The status the process ends with: 0 after a normal return, the argument of
  \<^verbatim>\<open>sys.exit\<close>, 1 for any other uncaught exception, and none when it never ends.
\<close>

definition exit_status :: "(error + axel) \<times> world \<Rightarrow> int option" where
  "exit_status r =
     (case fst r of
        Inr a \<Rightarrow> Some 0
      | Inl (SystemExit n) \<Rightarrow> Some n
      | Inl BlocksForever \<Rightarrow> None
      | Inl e \<Rightarrow> Some 1)"

section \<open>Example worlds\<close>

text \<open>
  A server that holds \<open>content\<close> and honours ranges: for \<^verbatim>\<open>Range: bytes=a-b\<close> it sends the
  bytes at offsets \<open>a\<close> to \<open>b\<close> that exist, as one block.
\<close>

definition serve :: "bytes \<Rightarrow> string \<Rightarrow> int \<times> int \<Rightarrow> get_result" where
  "serve content name r =
     (case r of (a, b) \<Rightarrow> Body [take (nat (b - a + 1)) (drop (nat a) content)] False)"

text \<open>A resource of ten bytes, an empty directory.\<close>

definition ten_bytes :: world where
  "ten_bytes =
     \<lparr>head_reply = Headers (Some ''10''), get_reply = serve ''0123456789'',
      glob_reply = (\<lambda>p. []), cwd = [], stdin = [], stdout = [], get_log = []\<rparr>"

section \<open>The range planner\<close>

text \<open>
  C1 (the code departs from it). The claim gives the last segment the inclusive end
  \<open>L - 1\<close>. For \<open>L = 10\<close> and \<open>N = 2\<close> the planner of lines 69-78 produces the segments
  \<open>[0, 4]\<close> and \<open>[5, 10]\<close>: the last boundary is the content length itself, one past the
  last byte, while every other boundary is the inclusive end \<open>(i + 1) * chunk_size - 1\<close>.
\<close>

theorem plan_last_boundary_is_content_length:
  "fst (get_file_info (Axel ''http://host/f'' 2) ten_bytes)
     = Inr \<lparr>count = 2, url = ''http://host/f'', content_length = 10, startcount = [],
            filename = Some ''f'', chunk_size = 5,
            chunks = [Some (0, 4), Some (5, 10)], files = []\<rparr>"
  by code_simp

section \<open>The output file name\<close>

lemma choose_filename_iter:
  "\<exists>k. choose_filename d fn = (next_filename ^^ k) fn
      \<and> (\<forall>j<k. isfile d ((next_filename ^^ j) fn))
      \<and> \<not> isfile d ((next_filename ^^ k) fn)"
proof (induction d fn rule: choose_filename.induct)
  case (1 d fn)
  show ?case
  proof (cases "isfile d fn")
    case False
    then have "choose_filename d fn = (next_filename ^^ 0) fn"
      by (subst choose_filename.simps) simp
    with False show ?thesis by (intro exI [of _ 0]) simp
  next
    case True
    from 1 [OF True] obtain k where
      k: "choose_filename d (next_filename fn) = (next_filename ^^ k) (next_filename fn)"
      and below: "\<forall>j<k. isfile d ((next_filename ^^ j) (next_filename fn))"
      and free: "\<not> isfile d ((next_filename ^^ k) (next_filename fn))" by blast
    have eq: "choose_filename d fn = (next_filename ^^ Suc k) fn"
      using True k by (subst choose_filename.simps) (simp add: funpow_swap1)
    have "\<forall>j<Suc k. isfile d ((next_filename ^^ j) fn)"
    proof (intro allI impI)
      fix j assume "j < Suc k"
      then show "isfile d ((next_filename ^^ j) fn)"
        using True below by (cases j) (simp_all add: funpow_swap1)
    qed
    moreover have "\<not> isfile d ((next_filename ^^ Suc k) fn)"
      using free by (simp add: funpow_swap1)
    ultimately show ?thesis using eq by blast
  qed
qed

lemma next_filename_numbered:
  assumes "isdigit ds" and "list_ex (\<lambda>c. c \<noteq> CHR ''.'') (basename p)"
  shows "next_filename (p @ ''.'' @ ds) = p @ ''.'' @ str_int (int (int_of_digits ds) + 1)"
proof -
  have nodot: "CHR ''.'' \<notin> set ds" and noslash: "CHR ''/'' \<notin> set (CHR ''.'' # ds)"
    using assms(1) digit_not_dot_slash by (auto simp: isdigit_def list_all_iff)
  have b: "basename (p @ CHR ''.'' # ds) = basename p @ CHR ''.'' # ds"
    by (rule basename_append [OF noslash])
  have d: "dirpart (p @ CHR ''.'' # ds) = dirpart p"
    by (rule dirpart_append [OF noslash])
  have "split_name (basename p @ CHR ''.'' # ds) = (basename p, CHR ''.'' # ds)"
    by (rule split_name_ext [OF nodot assms(2)])
  then have "splitext (p @ CHR ''.'' # ds) = (p, CHR ''.'' # ds)"
    by (simp add: splitext_def b d dir_base)
  then show ?thesis using assms(1) by (simp add: next_filename_def)
qed

lemma get_file_info_filename:
  "get_file_info a w = (Inr a', w')
    \<Longrightarrow> filename a' = Some (choose_filename (cwd w) (basename (url a))) \<and> w' = w"
  by (auto simp: get_file_info_def split: head_result.splits option.splits if_splits)

text \<open>
  C8. The output name \<^verbatim>\<open>get_file_info\<close> computes is the first name that is not a file in
  the sequence that starts at the URL's basename and goes from each candidate to the
  next: \<open>file.txt\<close>, when taken, gives \<open>file.txt.0\<close>, and that one, when taken, gives
  \<open>file.txt.1\<close>; a candidate with a numeric extension gets the number raised by one,
  any other gets \<open>.0\<close> appended. The loop always ends: \<open>choose_filename\<close> is total.
\<close>

theorem output_filename_avoids_collisions:
  assumes "get_file_info a w = (Inr a', w')"
  shows "(\<exists>k. filename a' = Some ((next_filename ^^ k) (basename (url a)))
            \<and> (\<forall>j<k. isfile (cwd w) ((next_filename ^^ j) (basename (url a))))
            \<and> \<not> isfile (cwd w) ((next_filename ^^ k) (basename (url a))))
       \<and> (basename (url a) = ''file.txt'' \<and> isfile (cwd w) ''file.txt''
            \<and> \<not> isfile (cwd w) ''file.txt.0'' \<longrightarrow> filename a' = Some ''file.txt.0'')
       \<and> (basename (url a) = ''file.txt'' \<and> isfile (cwd w) ''file.txt''
            \<and> isfile (cwd w) ''file.txt.0'' \<and> \<not> isfile (cwd w) ''file.txt.1''
            \<longrightarrow> filename a' = Some ''file.txt.1'')
       \<and> (\<forall>p ds. isdigit ds \<and> list_ex (\<lambda>c. c \<noteq> CHR ''.'') (basename p)
            \<longrightarrow> next_filename (p @ ''.'' @ ds) = p @ ''.'' @ str_int (int (int_of_digits ds) + 1))
       \<and> (\<forall>fn. \<not> isdigit (drop 1 (snd (splitext fn))) \<longrightarrow> next_filename fn = fn @ ''.0'')"
proof -
  have fn: "filename a' = Some (choose_filename (cwd w) (basename (url a)))"
    using get_file_info_filename [OF assms] by simp
  have n0: "next_filename ''file.txt'' = ''file.txt.0''" by code_simp
  have n1: "next_filename ''file.txt.0'' = ''file.txt.1''" by code_simp
  have A: "\<exists>k. filename a' = Some ((next_filename ^^ k) (basename (url a)))
            \<and> (\<forall>j<k. isfile (cwd w) ((next_filename ^^ j) (basename (url a))))
            \<and> \<not> isfile (cwd w) ((next_filename ^^ k) (basename (url a)))"
    using choose_filename_iter [of "cwd w" "basename (url a)"] fn by simp
  have B: "basename (url a) = ''file.txt'' \<and> isfile (cwd w) ''file.txt''
            \<and> \<not> isfile (cwd w) ''file.txt.0'' \<longrightarrow> filename a' = Some ''file.txt.0''"
    unfolding fn
    by (subst choose_filename.simps, subst choose_filename.simps) (simp add: n0)
  have C: "basename (url a) = ''file.txt'' \<and> isfile (cwd w) ''file.txt''
            \<and> isfile (cwd w) ''file.txt.0'' \<and> \<not> isfile (cwd w) ''file.txt.1''
            \<longrightarrow> filename a' = Some ''file.txt.1''"
    unfolding fn
    by (subst choose_filename.simps, subst choose_filename.simps, subst choose_filename.simps)
       (simp add: n0 n1)
  have D: "\<forall>p ds. isdigit ds \<and> list_ex (\<lambda>c. c \<noteq> CHR ''.'') (basename p)
            \<longrightarrow> next_filename (p @ ''.'' @ ds) = p @ ''.'' @ str_int (int (int_of_digits ds) + 1)"
    using next_filename_numbered by blast
  have E: "\<forall>fn. \<not> isdigit (drop 1 (snd (splitext fn))) \<longrightarrow> next_filename fn = fn @ ''.0''"
    by (auto simp: next_filename_def split: prod.splits)
  from A B C D E show ?thesis by blast
qed

lemma get_file_info_world: "snd (get_file_info a w) = w"
  by (simp add: get_file_info_def split: head_result.splits option.splits)

definition two_taken :: world where
  "two_taken = ten_bytes\<lparr>cwd := [(''file.txt'', ''a''), (''file.txt.0'', ''b'')]\<rparr>"

definition after_two_taken :: axel where
  "after_two_taken =
     \<lparr>count = 2, url = ''http://host/dir/file.txt'', content_length = 10, startcount = [],
      filename = Some ''file.txt.1'', chunk_size = 5,
      chunks = [Some (0, 4), Some (5, 10)], files = []\<rparr>"

lemma get_file_info_two_taken:
  "get_file_info (Axel ''http://host/dir/file.txt'' 2) two_taken = (Inr after_two_taken, two_taken)"
proof -
  have "fst (get_file_info (Axel ''http://host/dir/file.txt'' 2) two_taken) = Inr after_two_taken"
    by code_simp
  then show ?thesis
    using get_file_info_world [of "Axel ''http://host/dir/file.txt'' 2" two_taken]
    by (metis prod.collapse)
qed

theorem output_filename_avoids_collisions_witness:
  "get_file_info (Axel ''http://host/dir/file.txt'' 2) two_taken = (Inr after_two_taken, two_taken)
   \<and> (\<exists>k. filename after_two_taken
            = Some ((next_filename ^^ k) (basename (url (Axel ''http://host/dir/file.txt'' 2))))
          \<and> \<not> isfile (cwd two_taken)
                ((next_filename ^^ k) (basename (url (Axel ''http://host/dir/file.txt'' 2)))))"
proof -
  note h = get_file_info_two_taken
  from output_filename_avoids_collisions [OF h]
  have "\<exists>k. filename after_two_taken
            = Some ((next_filename ^^ k) (basename (url (Axel ''http://host/dir/file.txt'' 2))))
          \<and> \<not> isfile (cwd two_taken)
                ((next_filename ^^ k) (basename (url (Axel ''http://host/dir/file.txt'' 2))))"
    by blast
  with h show ?thesis by blast
qed

section \<open>Resume reconciliation\<close>

subsection \<open>Example worlds with part files\<close>

text \<open>
  The ten-byte resource with the part files \<open>parts\<close> in the directory, which
  \<^verbatim>\<open>glob.glob('f.part*')\<close> lists in the order \<open>listing\<close>.
\<close>

definition with_parts :: "dir \<Rightarrow> string list \<Rightarrow> world" where
  "with_parts parts listing =
     ten_bytes\<lparr>glob_reply := (\<lambda>p. if p = ''f.part*'' then listing else []), cwd := parts\<rparr>"

definition full_parts :: world where
  "full_parts =
     with_parts [(''f.part000'', ''012''), (''f.part001'', ''345''), (''f.part002'', ''6789'')]
       [''f.part000'', ''f.part001'', ''f.part002'']"

definition one_short :: "string list \<Rightarrow> world" where
  "one_short listing = with_parts [(''f.part000'', ''01234''), (''f.part001'', ''56'')] listing"

text \<open>
  C3 (the code departs from it). For \<open>L = 10\<close> and \<open>N = 3\<close> the segments hold 3, 3 and 4
  bytes. With three part files of exactly these sizes nothing is left to fetch, yet
  the run ends with \<^verbatim>\<open>sys.exit(1)\<close>: line 96 compares every size with \<^verbatim>\<open>chunk_size\<close> = 3,
  so the complete last part, which holds the remainder too, is taken for a mismatch.
  No file is touched and nothing is stitched.
\<close>

theorem complete_parts_with_remainder_rejected:
  "map (getsize (cwd full_parts)) [''f.part000'', ''f.part001'', ''f.part002'']
     = [Some 3, Some 3, Some 4]
   \<and> fst (main ''http://host/f'' 3 full_parts) = Inl (SystemExit 1)
   \<and> cwd (snd (main ''http://host/f'' 3 full_parts)) = cwd full_parts
   \<and> get_log (snd (main ''http://host/f'' 3 full_parts)) = []"
  by code_simp

text \<open>
  C9 (the code departs from it). Two part files for \<open>L = 10\<close>, \<open>N = 2\<close>: part 0 is
  complete (5 bytes), part 1 holds 2 of its 5 bytes. Listed in index order, the plan
  skips segment 0 and fetches the rest of segment 1, and the output is the resource.
  Listed in the other order, the same files give another plan: line 94 pairs each size
  with the position in the listing, so segment 0 is fetched from offset 2 and appended
  to the complete part 0, segment 1 is skipped, and the output is not the resource.
\<close>

theorem resume_plan_depends_on_listing_order:
  "fst (fetch (Axel ''http://host/f'' 2) (one_short [''f.part000'', ''f.part001'']))
     = Inr \<lparr>count = 2, url = ''http://host/f'', content_length = 10, startcount = [5, 2],
            filename = Some ''f'', chunk_size = 5, chunks = [None, Some (7, 9)],
            files = [''f.part000'', ''f.part001'']\<rparr>
   \<and> fst (fetch (Axel ''http://host/f'' 2) (one_short [''f.part001'', ''f.part000'']))
     = Inr \<lparr>count = 2, url = ''http://host/f'', content_length = 10, startcount = [2, 5],
            filename = Some ''f'', chunk_size = 5, chunks = [Some (2, 4), None],
            files = [''f.part000'', ''f.part001'']\<rparr>
   \<and> cwd (snd (main ''http://host/f'' 2 (one_short [''f.part000'', ''f.part001''])))
       = [(''f'', ''0123456789'')]
   \<and> cwd (snd (main ''http://host/f'' 2 (one_short [''f.part001'', ''f.part000''])))
       = [(''f'', ''0123423456'')]"
  by code_simp

subsection \<open>What the methods leave alone\<close>

lemma print_fields [simp]:
  "cwd (print s w) = cwd w" "get_log (print s w) = get_log w"
  "glob_reply (print s w) = glob_reply w" "get_reply (print s w) = get_reply w"
  "stdin (print s w) = stdin w" "stdout (print s w) = stdout w @ [s]"
  by (simp_all add: print_def)

lemma resume_loop_world:
  "cwd (snd (resume_loop a globs i fs nc sc w)) = cwd w
   \<and> get_log (snd (resume_loop a globs i fs nc sc w)) = get_log w
   \<and> get_reply (snd (resume_loop a globs i fs nc sc w)) = get_reply w"
  by (induction fs arbitrary: i nc sc)
     (auto split: option.splits prod.splits)

lemma resume_check_world:
  "cwd (snd (resume_check a w)) = cwd w
   \<and> get_log (snd (resume_check a w)) = get_log w
   \<and> get_reply (snd (resume_check a w)) = get_reply w"
proof -
  let ?globs = "glob_reply w (fmt_s (filename a) @ ''.part*'')"
  obtain r w' where rl: "resume_loop a ?globs 0 ?globs [] (startcount a) w = (r, w')"
    by force
  have "cwd w' = cwd w \<and> get_log w' = get_log w \<and> get_reply w' = get_reply w"
    using resume_loop_world [of a ?globs 0 ?globs "[]" "startcount a" w] rl by simp
  then show ?thesis
    by (cases r) (auto simp: resume_check_def Let_def rl)
qed

lemma get_file_info_Inr:
  assumes "get_file_info a w = (Inr a', w')"
  shows "count a' = count a" and "w' = w" and "count a \<noteq> 0"
    and "chunk_size a' = content_length a' div count a"
    and "chunks a' = chunks a @ map Some (plan_chunks (content_length a') (count a))"
    and "filename a' = Some (choose_filename (cwd w) (basename (url a)))"
    and "files a' = files a" and "startcount a' = startcount a"
  using assms
  by (auto simp: get_file_info_def split: head_result.splits option.splits if_splits)

lemma fetch_fresh:
  "fetch (Axel u n) w =
     (case get_file_info (Axel u n) w of
        (Inl e, w1) \<Rightarrow> (Inl e, w1)
      | (Inr a1, w1) \<Rightarrow>
          (case resume_check a1 w1 of
             (Inl e, w2) \<Rightarrow> (Inl e, w2)
           | (Inr a2, w2) \<Rightarrow>
               if count a2 < 0 then (Inl ValueError, w2)
               else (case spawn_loop a2 0 (chunks a2) w2 of
                       (Inl e, w3) \<Rightarrow> (Inl e, w3)
                     | (Inr a3, w3) \<Rightarrow> (Inr a3, print [] w3))))"
  by (simp add: fetch_def Axel_def split: prod.splits sum.splits)

lemma main_aborts_in_resume_check:
  assumes "get_file_info (Axel u n) w = (Inr a1, w1)"
    and "fst (resume_check a1 w) = Inl e"
  shows "main u n w = (Inl e, snd (resume_check a1 w))"
proof -
  have w1: "w1 = w" using get_file_info_Inr(2) [OF assms(1)] .
  obtain r w2 where rc: "resume_check a1 w = (r, w2)" by force
  with assms(2) have "r = Inl e" by simp
  then show ?thesis
    by (simp add: main_def fetch_n_stitch_def fetch_fresh assms(1) w1 rc)
qed

subsection \<open>A wrong number of part files\<close>

lemma resume_check_count_mismatch:
  assumes "glob_reply w (fmt_s (filename a) @ ''.part*'') = globs"
    and "globs \<noteq> []" and "int (length globs) \<noteq> count a"
  shows "resume_check a w =
     (Inl (SystemExit 1),
      print (nl @ ''Try setting --count '' @ str_int (int (length globs)))
        (print (''    '' @ join (nl @ ''    '') globs)
          (print (''partial files already exist, and do not match the count (''
                  @ str_int (count a) @ '') specified:'') w)))"
  using assms by (simp add: resume_check_def)

text \<open>
  C6. When the planner has done its work and the number of names that match the part
  pattern is neither zero nor \<open>N\<close>, the run ends in \<^verbatim>\<open>sys.exit(1)\<close>: the exit status is 1,
  the last line printed names the number of part files found, no request has been
  issued and the directory is as it was.
\<close>

theorem part_count_mismatch_aborts:
  assumes "get_file_info (Axel u n) w = (Inr a1, w1)"
    and "glob_reply w (fmt_s (filename a1) @ ''.part*'') = globs"
    and "globs \<noteq> []" and "int (length globs) \<noteq> n"
  shows "fst (main u n w) = Inl (SystemExit 1)
       \<and> exit_status (main u n w) = Some 1
       \<and> cwd (snd (main u n w)) = cwd w
       \<and> get_log (snd (main u n w)) = get_log w
       \<and> stdout (snd (main u n w)) = stdout w @
           [''partial files already exist, and do not match the count (''
              @ str_int n @ '') specified:'',
            ''    '' @ join (nl @ ''    '') globs,
            nl @ ''Try setting --count '' @ str_int (int (length globs))]"
proof -
  from get_file_info_Inr(1) [OF assms(1)] have cnt: "count a1 = n"
    by (simp add: Axel_def)
  have rc: "resume_check a1 w =
     (Inl (SystemExit 1),
      print (nl @ ''Try setting --count '' @ str_int (int (length globs)))
        (print (''    '' @ join (nl @ ''    '') globs)
          (print (''partial files already exist, and do not match the count (''
                  @ str_int (count a1) @ '') specified:'') w)))"
    using assms(2-4) cnt by (intro resume_check_count_mismatch) simp_all
  then have "fst (resume_check a1 w) = Inl (SystemExit 1)" by simp
  from main_aborts_in_resume_check [OF assms(1) this]
  show ?thesis by (simp add: rc cnt exit_status_def)
qed

definition five_parts :: world where
  "five_parts =
     with_parts [(''f.part000'', ''0''), (''f.part001'', ''1''), (''f.part002'', ''2''),
                 (''f.part003'', ''3''), (''f.part004'', ''4'')]
       [''f.part000'', ''f.part001'', ''f.part002'', ''f.part003'', ''f.part004'']"

definition planned_eight :: axel where
  "planned_eight =
     \<lparr>count = 8, url = ''http://host/f'', content_length = 10, startcount = [],
      filename = Some ''f'', chunk_size = 1,
      chunks = [Some (0, 0), Some (1, 1), Some (2, 2), Some (3, 3), Some (4, 4),
                Some (5, 5), Some (6, 6), Some (7, 10)], files = []\<rparr>"

lemma get_file_info_five_parts:
  "get_file_info (Axel ''http://host/f'' 8) five_parts = (Inr planned_eight, five_parts)"
proof -
  have "fst (get_file_info (Axel ''http://host/f'' 8) five_parts) = Inr planned_eight"
    by code_simp
  then show ?thesis
    using get_file_info_world [of "Axel ''http://host/f'' 8" five_parts]
    by (metis prod.collapse)
qed

theorem part_count_mismatch_aborts_witness:
  "get_file_info (Axel ''http://host/f'' 8) five_parts = (Inr planned_eight, five_parts)
   \<and> length (glob_reply five_parts (fmt_s (filename planned_eight) @ ''.part*'')) = 5
   \<and> fst (main ''http://host/f'' 8 five_parts) = Inl (SystemExit 1)
   \<and> exit_status (main ''http://host/f'' 8 five_parts) = Some 1
   \<and> cwd (snd (main ''http://host/f'' 8 five_parts)) = cwd five_parts
   \<and> get_log (snd (main ''http://host/f'' 8 five_parts)) = get_log five_parts
   \<and> last (stdout (snd (main ''http://host/f'' 8 five_parts)))
       = nl @ ''Try setting --count 5''"
proof -
  let ?globs = "[''f.part000'', ''f.part001'', ''f.part002'', ''f.part003'', ''f.part004'']"
  have g: "glob_reply five_parts (fmt_s (filename planned_eight) @ ''.part*'') = ?globs"
    by (simp add: five_parts_def with_parts_def planned_eight_def fmt_s_def)
  have s5: "str_int 5 = ''5''" by code_simp
  from part_count_mismatch_aborts [OF get_file_info_five_parts g]
  show ?thesis using g get_file_info_five_parts by (simp add: s5)
qed

subsection \<open>The planned chunks\<close>

lemma plan_chunks_length: "length (plan_chunks len n) = nat n"
  by (simp add: plan_chunks_def)

lemma plan_chunks_nth:
  assumes "int i < n"
  shows "plan_chunks len n ! i
       = (int i * (len div n), if int i = n - 1 then len else (int i + 1) * (len div n) - 1)"
proof -
  have "i < length [0..n - 1]" using assms by simp
  moreover have "[0..n - 1] ! i = int i" using assms by (simp add: nth_upto)
  ultimately show ?thesis by (simp add: plan_chunks_def plan_chunk_def)
qed



subsection \<open>A part file as long as its segment's end offset\<close>

text \<open>
  The bytes a resource of \<open>len\<close> bytes has at the offsets \<open>c0\<close> to \<open>c1\<close>: the full length of
  the part file of a segment planned as \<open>(c0, c1)\<close>.
\<close>

definition range_length :: "int \<Rightarrow> int \<times> int \<Rightarrow> int" where
  "range_length len r = (case r of (c0, c1) \<Rightarrow> max 0 (min c1 (len - 1) - c0 + 1))"



definition part0_one_short :: world where
  "part0_one_short =
     with_parts [(''f.part000'', ''0123''), (''f.part001'', ''56789'')]
       [''f.part000'', ''f.part001'']"

definition planned_two :: axel where
  "planned_two =
     \<lparr>count = 2, url = ''http://host/f'', content_length = 10, startcount = [],
      filename = Some ''f'', chunk_size = 5,
      chunks = [Some (0, 4), Some (5, 10)], files = []\<rparr>"



section \<open>The stitcher\<close>

lemma lines_from_concat: "concat (lines_from cur s) = cur @ s"
  by (induction s arbitrary: cur) auto

lemma map_of_append_file:
  "map_of (append_file name data d) k
     = (if k = name then Some ((case map_of d name of None \<Rightarrow> [] | Some old \<Rightarrow> old) @ data)
        else map_of d k)"
  by (simp add: append_file_def update_conv')

lemma map_of_write_lines:
  "map_of d out = Some old
    \<Longrightarrow> map_of (write_lines out ls d) k
          = (if k = out then Some (old @ concat ls) else map_of d k)"
proof (induction ls arbitrary: d old)
  case Nil
  then show ?case by simp
next
  case (Cons block rest)
  have "map_of (append_file out block d) out = Some (old @ block)"
    using Cons.prems by (simp add: map_of_append_file)
  from Cons.IH [OF this] show ?case
    using Cons.prems by (simp add: map_of_append_file)
qed

text \<open>
  Copying the files \<open>fs\<close>, which exist with the contents \<open>contents\<close>, into the open output
  file appends their contents in the order of \<open>fs\<close> and changes nothing else.
\<close>

lemma copy_files_concat:
  assumes "map_of (cwd w) out = Some acc"
    and "map (map_of (cwd w)) fs = map Some contents"
    and "out \<notin> set fs" and "''-'' \<notin> set fs"
  shows "\<exists>w'. copy_files out fs w = (Inr (), w')
            \<and> (\<forall>k. map_of (cwd w') k
                   = (if k = out then Some (acc @ concat contents) else map_of (cwd w) k))
            \<and> get_log w' = get_log w \<and> stdout w' = stdout w"
  using assms
proof (induction fs arbitrary: w acc contents)
  case Nil
  then show ?case by simp
next
  case (Cons f fs)
  from Cons.prems(2) obtain c cs where cont: "contents = c # cs"
    and c: "map_of (cwd w) f = Some c"
    and cs: "map (map_of (cwd w)) fs = map Some cs"
    by (cases contents) auto
  from Cons.prems(3,4) have f: "f \<noteq> out" "f \<noteq> ''-''" by auto
  define d where "d = write_lines out (lines_from [] c) (cwd w)"
  have m: "\<And>k. map_of d k = (if k = out then Some (acc @ c) else map_of (cwd w) k)"
    unfolding d_def using map_of_write_lines [OF Cons.prems(1), of "lines_from [] c"]
    by (simp add: lines_from_concat)
  have 1: "map_of (cwd (w\<lparr>cwd := d\<rparr>)) out = Some (acc @ c)" by (simp add: m)
  have "map (map_of d) fs = map (map_of (cwd w)) fs"
    using Cons.prems(3) by (intro map_cong) (auto simp: m)
  then have 2: "map (map_of (cwd (w\<lparr>cwd := d\<rparr>))) fs = map Some cs"
    using cs by simp
  from Cons.IH [OF 1 2] Cons.prems(3,4) obtain w' where
    w': "copy_files out fs (w\<lparr>cwd := d\<rparr>) = (Inr (), w')"
    and m': "\<And>k. map_of (cwd w') k
               = (if k = out then Some ((acc @ c) @ concat cs) else map_of d k)"
    and rest: "get_log w' = get_log w" "stdout w' = stdout w"
    by auto
  have "copy_files out (f # fs) w = (Inr (), w')"
    using c f w' by (simp add: read_input_def d_def)
  moreover have "\<forall>k. map_of (cwd w') k
      = (if k = out then Some (acc @ concat contents) else map_of (cwd w) k)"
    by (simp add: m' m cont)
  ultimately show ?case using rest by simp
qed

text \<open>Unlinking distinct files that exist removes exactly them.\<close>

lemma unlink_all_removes:
  assumes "distinct fs" and "list_all (isfile (cwd w)) fs"
  shows "\<exists>w'. unlink_all fs w = (Inr (), w')
            \<and> (\<forall>k. map_of (cwd w') k = (if k \<in> set fs then None else map_of (cwd w) k))
            \<and> get_log w' = get_log w \<and> stdout w' = stdout w"
  using assms
proof (induction fs arbitrary: w)
  case Nil
  then show ?case by simp
next
  case (Cons f fs)
  define d where "d = AList.delete f (cwd w)"
  have m: "\<And>k. map_of d k = (if k = f then None else map_of (cwd w) k)"
    by (simp add: d_def delete_conv')
  have "list_all (isfile (cwd (w\<lparr>cwd := d\<rparr>))) fs"
    using Cons.prems by (auto simp: list_all_iff isfile_def m)
  with Cons.IH [of "w\<lparr>cwd := d\<rparr>"] Cons.prems(1) obtain w' where
    w': "unlink_all fs (w\<lparr>cwd := d\<rparr>) = (Inr (), w')"
    and m': "\<And>k. map_of (cwd w') k = (if k \<in> set fs then None else map_of d k)"
    and rest: "get_log w' = get_log w" "stdout w' = stdout w"
    by auto
  have "unlink_all (f # fs) w = (Inr (), w')"
    using Cons.prems(2) w' by (simp add: d_def)
  moreover have "\<forall>k. map_of (cwd w') k = (if k \<in> set (f # fs) then None else map_of (cwd w) k)"
    by (simp add: m' m)
  ultimately show ?case using rest by simp
qed

text \<open>What \<^verbatim>\<open>stitch\<close> does to the directory when every part file exists.\<close>

lemma stitch_result:
  assumes "filename a = Some out" and "openable out"
    and "files a \<noteq> []" and "distinct (files a)"
    and "out \<notin> set (files a)" and "''-'' \<notin> set (files a)"
    and "map (map_of (cwd w)) (files a) = map Some contents"
  shows "\<exists>w2. stitch a w = (Inr a, w2)
           \<and> (\<forall>k. map_of (cwd w2) k =
                  (if k \<in> set (files a) then None
                   else if k = out then Some (concat contents) else map_of (cwd w) k))
           \<and> get_log w2 = get_log w"
proof -
  define d0 where "d0 = AList.update out [] (cwd w)"
  have m0: "\<And>k. map_of d0 k = (if k = out then Some [] else map_of (cwd w) k)"
    by (simp add: d0_def update_conv')
  have 1: "map_of (cwd (w\<lparr>cwd := d0\<rparr>)) out = Some []" by (simp add: m0)
  have "map (map_of d0) (files a) = map (map_of (cwd w)) (files a)"
    using assms(5) by (intro map_cong) (auto simp: m0)
  then have 2: "map (map_of (cwd (w\<lparr>cwd := d0\<rparr>))) (files a) = map Some contents"
    using assms(7) by simp
  from copy_files_concat [OF 1 2 assms(5,6)] obtain w1 where
    w1: "copy_files out (files a) (w\<lparr>cwd := d0\<rparr>) = (Inr (), w1)"
    and m1: "\<And>k. map_of (cwd w1) k
               = (if k = out then Some ([] @ concat contents) else map_of d0 k)"
    and l1: "get_log w1 = get_log w"
    by auto
  have present: "\<And>f. f \<in> set (files a) \<Longrightarrow> map_of (cwd w) f \<noteq> None"
  proof -
    fix f assume "f \<in> set (files a)"
    then have "map_of (cwd w) f \<in> set (map (map_of (cwd w)) (files a))" by simp
    then show "map_of (cwd w) f \<noteq> None" unfolding assms(7) by auto
  qed
  have ex: "list_all (isfile (cwd w1)) (files a)"
    using present assms(5) by (auto simp: list_all_iff isfile_def m1 m0)
  from unlink_all_removes [OF assms(4) ex] obtain w2 where
    w2: "unlink_all (files a) w1 = (Inr (), w2)"
    and m2: "\<And>k. map_of (cwd w2) k = (if k \<in> set (files a) then None else map_of (cwd w1) k)"
    and l2: "get_log w2 = get_log w1"
    by auto
  have "stitch a w = (Inr a, w2)"
    using assms(1-3) w1 w2 by (simp add: stitch_def d0_def)
  moreover have "\<forall>k. map_of (cwd w2) k =
      (if k \<in> set (files a) then None
       else if k = out then Some (concat contents) else map_of (cwd w) k)"
    by (simp add: m2 m1 m0)
  ultimately show ?thesis using l1 l2 by simp
qed

text \<open>
  C7. Given the list \<^verbatim>\<open>self.files\<close> of part files (at least one; distinct names, none of
  them the output name or \<^verbatim>\<open>-\<close>, as the names \<^verbatim>\<open>fetch\<close> builds are) that exist with the
  contents \<open>contents\<close>, \<^verbatim>\<open>stitch\<close> returns normally, the output file holds exactly the
  contents concatenated in the order of the list, whatever the order of the directory,
  every part file is gone, and no other file has changed.
\<close>

theorem stitch_concatenates_in_order:
  assumes "filename a = Some out" and "openable out"
    and "files a \<noteq> []" and "distinct (files a)"
    and "out \<notin> set (files a)" and "''-'' \<notin> set (files a)"
    and "map (map_of (cwd w)) (files a) = map Some contents"
  shows "fst (stitch a w) = Inr a
       \<and> map_of (cwd (snd (stitch a w))) out = Some (concat contents)
       \<and> getsize (cwd (snd (stitch a w))) out = Some (int (sum_list (map length contents)))
       \<and> list_all (\<lambda>f. \<not> isfile (cwd (snd (stitch a w))) f) (files a)
       \<and> (\<forall>k. k \<noteq> out \<and> k \<notin> set (files a)
             \<longrightarrow> map_of (cwd (snd (stitch a w))) k = map_of (cwd w) k)"
proof -
  from stitch_result [OF assms] obtain w2 where
    st: "stitch a w = (Inr a, w2)"
    and m2: "\<And>k. map_of (cwd w2) k =
               (if k \<in> set (files a) then None
                else if k = out then Some (concat contents) else map_of (cwd w) k)"
    by auto
  have out: "map_of (cwd w2) out = Some (concat contents)"
    using assms(5) by (simp add: m2)
  have "length (concat contents) = sum_list (map length contents)"
    by (simp add: length_concat)
  with out have sz: "getsize (cwd w2) out = Some (int (sum_list (map length contents)))"
    by (simp add: getsize_def)
  have gone: "list_all (\<lambda>f. \<not> isfile (cwd w2) f) (files a)"
    by (simp add: list_all_iff isfile_def m2)
  have other: "\<forall>k. k \<noteq> out \<and> k \<notin> set (files a) \<longrightarrow> map_of (cwd w2) k = map_of (cwd w) k"
    by (simp add: m2)
  from st out sz gone other show ?thesis by simp
qed

text \<open>
  Three parts of 5, 7 and 3 bytes, which the directory holds in another order than
  their indices.
\<close>

definition three_parts :: world where
  "three_parts =
     ten_bytes\<lparr>cwd := [(''f.part002'', ''end''), (''f.part000'', ''hello''),
                        (''f.part001'', ''world!!''), (''other'', ''x'')]\<rparr>"

definition fetched_three :: axel where
  "fetched_three =
     \<lparr>count = 3, url = ''http://host/f'', content_length = 15, startcount = [],
      filename = Some ''f'', chunk_size = 5,
      chunks = [Some (0, 4), Some (5, 11), Some (12, 15)],
      files = [''f.part000'', ''f.part001'', ''f.part002'']\<rparr>"

theorem stitch_concatenates_in_order_witness:
  "map (getsize (cwd three_parts)) (files fetched_three) = [Some 5, Some 7, Some 3]
   \<and> fst (stitch fetched_three three_parts) = Inr fetched_three
   \<and> map_of (cwd (snd (stitch fetched_three three_parts))) ''f'' = Some ''helloworld!!end''
   \<and> getsize (cwd (snd (stitch fetched_three three_parts))) ''f'' = Some 15
   \<and> list_all (\<lambda>f. \<not> isfile (cwd (snd (stitch fetched_three three_parts))) f)
        (files fetched_three)"
proof -
  have 1: "filename fetched_three = Some ''f''" by (simp add: fetched_three_def)
  have 2: "openable ''f''" by (simp add: openable_def)
  have 3: "files fetched_three \<noteq> []" by (simp add: fetched_three_def)
  have 4: "distinct (files fetched_three)" by (simp add: fetched_three_def)
  have 5: "''f'' \<notin> set (files fetched_three)" by (simp add: fetched_three_def)
  have 6: "''-'' \<notin> set (files fetched_three)" by (simp add: fetched_three_def)
  have 7: "map (map_of (cwd three_parts)) (files fetched_three)
             = map Some [''hello'', ''world!!'', ''end'']"
    by (simp add: fetched_three_def three_parts_def)
  have 8: "map (getsize (cwd three_parts)) (files fetched_three) = [Some 5, Some 7, Some 3]"
    by (simp add: fetched_three_def three_parts_def getsize_def)
  from stitch_concatenates_in_order [OF 1 2 3 4 5 6 7] 8
  show ?thesis by simp
qed

section \<open>The fetch phase\<close>

subsection \<open>Part file names\<close>

lemma int_of_digits_zeros: "int_of_digits (replicate k CHR ''0'' @ ds) = int_of_digits ds"
proof -
  have "foldl (\<lambda>a c. 10 * a + digit_val c) 0 (replicate k CHR ''0'') = 0"
    by (induction k) (simp_all add: digit_val_def)
  then show ?thesis by (simp add: int_of_digits_def)
qed

lemma int_of_digits_pad3: "int_of_digits (pad3 i) = i"
  by (simp add: pad3_def int_of_digits_zeros int_of_digits_dec)

lemma part_name_inj: "part_name fn i = part_name fn j \<Longrightarrow> i = j"
proof -
  assume "part_name fn i = part_name fn j"
  then have "pad3 i = pad3 j" by (simp add: part_name_def)
  then have "int_of_digits (pad3 i) = int_of_digits (pad3 j)" by simp
  then show "i = j" by (simp add: int_of_digits_pad3)
qed

lemma part_name_not_output: "part_name fn i \<noteq> fmt_s fn"
  by (simp add: part_name_def)

lemma part_name_not_dash: "part_name fn i \<noteq> ''-''"
proof
  assume "part_name fn i = ''-''"
  then have "length (part_name fn i) = 1" by simp
  then show False by (simp add: part_name_def)
qed

lemma part_names_distinct: "distinct (map (part_name fn) [i..<j])"
  by (simp add: distinct_map inj_on_def) (use part_name_inj in blast)

subsection \<open>What one worker does\<close>

text \<open>What \<^verbatim>\<open>getter\<close> writes for a reply, and whether it raises.\<close>

definition received :: "get_result \<Rightarrow> bytes option" where
  "received r = (case r of GetFails \<Rightarrow> None | Body blocks fails \<Rightarrow> Some (fst (write_blocks blocks)))"

definition fetch_fails :: "get_result \<Rightarrow> bool" where
  "fetch_fails r =
     (case r of GetFails \<Rightarrow> True | Body blocks fails \<Rightarrow> fails \<and> \<not> snd (write_blocks blocks))"

lemma getter_fields:
  "get_reply (snd (getter a name chunk w)) = get_reply w"
  "stdout (snd (getter a name chunk w)) = stdout w"
  "get_log (snd (getter a name chunk w)) = get_log w @ [(name, chunk)]"
  by (simp_all add: getter_def Let_def split: get_result.splits prod.splits)

lemma getter_file:
  "map_of (cwd (snd (getter a name chunk w))) k =
     (if k = name then
        (case received (get_reply w name chunk) of
           None \<Rightarrow> map_of (cwd w) name
         | Some data \<Rightarrow> Some ((case map_of (cwd w) name of None \<Rightarrow> [] | Some old \<Rightarrow> old) @ data))
      else map_of (cwd w) k)"
  by (simp add: getter_def Let_def received_def map_of_append_file
           split: get_result.splits prod.splits)

lemma getter_raises:
  "fst (getter a name chunk w) = (if fetch_fails (get_reply w name chunk) then Inl RequestException else Inr ())"
  by (simp add: getter_def Let_def fetch_fails_def split: get_result.splits prod.splits)

subsection \<open>The spawn loop\<close>

lemma upt_from: "[i..<Suc (i + n)] = i # [Suc i..<Suc (i + n)]"
  by (rule upt_conv_Cons) simp

text \<open>The requests the loop issues for the chunks \<open>cs\<close>, which start at index \<open>i\<close>.\<close>

fun planned_requests ::
  "string option \<Rightarrow> nat \<Rightarrow> (int \<times> int) option list \<Rightarrow> (string \<times> int \<times> int) list" where
  "planned_requests fn i [] = []"
| "planned_requests fn i (None # cs) = planned_requests fn (Suc i) cs"
| "planned_requests fn i (Some c # cs) = (part_name fn i, c) # planned_requests fn (Suc i) cs"

lemma spawn_loop_returns:
  assumes "count a \<noteq> 0"
  shows "\<exists>a' w'. spawn_loop a i cs w = (Inr a', w')
           \<and> a' = a\<lparr>files := files a @ map (part_name (filename a)) [i..<i + length cs]\<rparr>
           \<and> get_log w' = get_log w @ planned_requests (filename a) i cs
           \<and> get_reply w' = get_reply w \<and> stdout w' = stdout w"
  using assms
proof (induction cs arbitrary: a i w)
  case Nil
  then show ?case by simp
next
  case (Cons c cs)
  let ?a = "a\<lparr>files := files a @ [part_name (filename a) i]\<rparr>"
  note up = upt_from [of i "length cs"]
  have cnt: "count ?a \<noteq> 0" using Cons.prems by simp
  show ?case
  proof (cases c)
    case None
    from Cons.IH [OF cnt, of "Suc i" w] show ?thesis
      using None Cons.prems by (simp add: Let_def up del: upt_Suc)
  next
    case (Some chunk)
    let ?w = "snd (getter ?a (part_name (filename a) i) chunk w)"
    from Cons.IH [OF cnt, of "Suc i" ?w] show ?thesis
      using Some Cons.prems by (simp add: Let_def up getter_fields del: upt_Suc)
  qed
qed

lemma planned_requests_all:
  "planned_requests fn i (map Some xs)
     = map (\<lambda>j. (part_name fn j, xs ! (j - i))) [i..<i + length xs]"
proof (induction xs arbitrary: i)
  case Nil
  then show ?case by simp
next
  case (Cons x xs)
  note up = upt_from [of i "length xs"]
  have "map (\<lambda>j. (part_name fn j, xs ! (j - Suc i))) [Suc i..<Suc (i + length xs)]
      = map (\<lambda>j. (part_name fn j, (x # xs) ! (j - i))) [Suc i..<Suc (i + length xs)]"
    by (intro map_cong) (auto simp: nth_Cons' )
  with Cons.IH [of "Suc i"] show ?case by (simp add: up del: upt_Suc)
qed

lemma planned_requests_mem:
  "(n, r) \<in> set (planned_requests fn i cs)
    \<longleftrightarrow> (\<exists>k<length cs. n = part_name fn (i + k) \<and> cs ! k = Some r)"
proof (induction fn i cs rule: planned_requests.induct)
  case (1 fn i)
  then show ?case by simp
next
  case (2 fn i cs)
  show ?case
  proof
    assume "(n, r) \<in> set (planned_requests fn i (None # cs))"
    with 2 obtain k where "k < length cs" "n = part_name fn (Suc i + k)" "cs ! k = Some r"
      by auto
    then show "\<exists>k<length (None # cs). n = part_name fn (i + k) \<and> (None # cs) ! k = Some r"
      by (intro exI [of _ "Suc k"]) simp
  next
    assume "\<exists>k<length (None # cs). n = part_name fn (i + k) \<and> (None # cs) ! k = Some r"
    then obtain k where k: "k < length (None # cs)" "n = part_name fn (i + k)"
      "(None # cs) ! k = Some r" by blast
    then obtain k' where "k = Suc k'" by (cases k) auto
    with k have "k' < length cs" "n = part_name fn (Suc i + k')" "cs ! k' = Some r" by auto
    with 2 show "(n, r) \<in> set (planned_requests fn i (None # cs))" by auto
  qed
next
  case (3 fn i c cs)
  show ?case
  proof
    assume "(n, r) \<in> set (planned_requests fn i (Some c # cs))"
    then consider "n = part_name fn i" "r = c" | "(n, r) \<in> set (planned_requests fn (Suc i) cs)"
      by auto
    then show "\<exists>k<length (Some c # cs). n = part_name fn (i + k) \<and> (Some c # cs) ! k = Some r"
    proof cases
      case 1
      then show ?thesis by (intro exI [of _ 0]) simp
    next
      case 2
      with 3 obtain k where "k < length cs" "n = part_name fn (Suc i + k)" "cs ! k = Some r"
        by auto
      then show ?thesis by (intro exI [of _ "Suc k"]) simp
    qed
  next
    assume "\<exists>k<length (Some c # cs). n = part_name fn (i + k) \<and> (Some c # cs) ! k = Some r"
    then obtain k where k: "k < length (Some c # cs)" "n = part_name fn (i + k)"
      "(Some c # cs) ! k = Some r" by blast
    show "(n, r) \<in> set (planned_requests fn i (Some c # cs))"
    proof (cases k)
      case 0
      with k show ?thesis by simp
    next
      case (Suc k')
      with k have "k' < length cs" "n = part_name fn (Suc i + k')" "cs ! k' = Some r" by auto
      with 3 show ?thesis by auto
    qed
  qed
qed

text \<open>A file that is no part file of the loop's indices is left alone.\<close>

lemma spawn_loop_other_file:
  assumes "count a \<noteq> 0"
    and "\<forall>j<length cs. part_name (filename a) (i + j) \<noteq> n"
  shows "map_of (cwd (snd (spawn_loop a i cs w))) n = map_of (cwd w) n"
  using assms
proof (induction cs arbitrary: a i w)
  case Nil
  then show ?case by simp
next
  case (Cons c cs)
  let ?a = "a\<lparr>files := files a @ [part_name (filename a) i]\<rparr>"
  have cnt: "count ?a \<noteq> 0" using Cons.prems by simp
  have ne: "part_name (filename a) i \<noteq> n" using Cons.prems(2) by force
  have rest: "\<forall>j<length cs. part_name (filename ?a) (Suc i + j) \<noteq> n"
  proof (intro allI impI)
    fix j assume "j < length cs"
    then have "Suc j < length (c # cs)" by simp
    with Cons.prems(2) have "part_name (filename a) (i + Suc j) \<noteq> n" by blast
    then show "part_name (filename ?a) (Suc i + j) \<noteq> n" by simp
  qed
  show ?case
  proof (cases c)
    case None
    from Cons.IH [OF cnt rest, of w] show ?thesis
      using None Cons.prems(1) by (simp add: Let_def)
  next
    case (Some chunk)
    let ?w = "snd (getter ?a (part_name (filename a) i) chunk w)"
    from Cons.IH [OF cnt rest, of ?w] show ?thesis
      using Some Cons.prems(1) ne by (simp add: Let_def getter_file)
  qed
qed

text \<open>
  The part file of index \<open>i + k\<close> after the loop: untouched when chunk \<open>k\<close> is \<^verbatim>\<open>None\<close> or
  the request fails before the file is opened, and otherwise extended by what the
  worker received for its request.
\<close>

lemma spawn_loop_part_file:
  assumes "count a \<noteq> 0" and "k < length cs"
  shows "map_of (cwd (snd (spawn_loop a i cs w))) (part_name (filename a) (i + k)) =
     (case cs ! k of
        None \<Rightarrow> map_of (cwd w) (part_name (filename a) (i + k))
      | Some chunk \<Rightarrow>
          (case received (get_reply w (part_name (filename a) (i + k)) chunk) of
             None \<Rightarrow> map_of (cwd w) (part_name (filename a) (i + k))
           | Some data \<Rightarrow>
               Some ((case map_of (cwd w) (part_name (filename a) (i + k)) of
                        None \<Rightarrow> [] | Some old \<Rightarrow> old) @ data)))"
  using assms
proof (induction cs arbitrary: a i k w)
  case Nil
  then show ?case by simp
next
  case (Cons c cs)
  let ?a = "a\<lparr>files := files a @ [part_name (filename a) i]\<rparr>"
  let ?n = "part_name (filename a) (i + k)"
  have cnt: "count ?a \<noteq> 0" using Cons.prems by simp
  show ?case
  proof (cases k)
    case 0
    have untouched: "\<And>w'. map_of (cwd (snd (spawn_loop ?a (Suc i) cs w'))) (part_name (filename a) i)
                       = map_of (cwd w') (part_name (filename a) i)"
    proof -
      fix w'
      have "\<forall>j<length cs. part_name (filename ?a) (Suc i + j) \<noteq> part_name (filename a) i"
        using part_name_inj [of "filename a"] by fastforce
      from spawn_loop_other_file [OF cnt this]
      show "map_of (cwd (snd (spawn_loop ?a (Suc i) cs w'))) (part_name (filename a) i)
              = map_of (cwd w') (part_name (filename a) i)" .
    qed
    show ?thesis
    proof (cases c)
      case None
      with 0 Cons.prems(1) untouched show ?thesis by (simp add: Let_def)
    next
      case (Some chunk)
      with 0 Cons.prems(1) untouched show ?thesis
        by (simp add: Let_def getter_file split: option.splits)
    qed
  next
    case (Suc k')
    then have k': "k' < length cs" using Cons.prems(2) by simp
    have ne: "part_name (filename a) i \<noteq> ?n"
      using part_name_inj [of "filename a" i "i + k"] Suc by auto
    have idx: "Suc i + k' = i + k" using Suc by simp
    have fa: "filename ?a = filename a" by simp
    have nth: "(c # cs) ! k = cs ! k'" using Suc by simp
    show ?thesis
    proof (cases c)
      case None
      have step: "spawn_loop a i (c # cs) w = spawn_loop ?a (Suc i) cs w"
        using None by (simp add: Let_def)
      show ?thesis
        unfolding step nth using Cons.IH [OF cnt k', of "Suc i" w] unfolding fa idx .
    next
      case (Some chunk)
      let ?w = "snd (getter ?a (part_name (filename a) i) chunk w)"
      have same: "map_of (cwd ?w) ?n = map_of (cwd w) ?n" using ne by (simp add: getter_file)
      have gr: "get_reply ?w = get_reply w" by (simp add: getter_fields)
      have step: "spawn_loop a i (c # cs) w = spawn_loop ?a (Suc i) cs ?w"
        using Some Cons.prems(1) by (simp add: Let_def)
      show ?thesis
        unfolding step nth using Cons.IH [OF cnt k', of "Suc i" ?w] unfolding fa idx same gr .
    qed
  qed
qed

section \<open>A response without a content length\<close>

definition no_length :: world where
  "no_length = ten_bytes\<lparr>head_reply := Headers None\<rparr>"

text \<open>
  C5 (corrected), the claim as stated fails. The server sends no \<^verbatim>\<open>Content-Length\<close>; no
  error is raised: line 71 takes the length to be 0, a plan of two segments is built,
  a request is issued for each of them, their part files are written and stitched, and
  the run ends with status 0.
\<close>

theorem missing_content_length_counterexample:
  "head_reply no_length = Headers None
   \<and> fst (get_file_info (Axel ''http://host/f'' 2) no_length)
       = Inr \<lparr>count = 2, url = ''http://host/f'', content_length = 0, startcount = [],
              filename = Some ''f'', chunk_size = 0,
              chunks = [Some (0, - 1), Some (0, 0)], files = []\<rparr>
   \<and> exit_status (main ''http://host/f'' 2 no_length) = Some 0
   \<and> get_log (snd (main ''http://host/f'' 2 no_length))
       = [(''f.part000'', (0, - 1)), (''f.part001'', (0, 0))]
   \<and> cwd (snd (main ''http://host/f'' 2 no_length)) = [(''f'', ''0'')]"
  by code_simp

lemma plan_chunks_zero:
  assumes "0 < n"
  shows "plan_chunks 0 n = map (\<lambda>j. (0, if int j = n - 1 then 0 else - 1)) [0..<nat n]"
proof (rule nth_equalityI)
  show "length (plan_chunks 0 n)
      = length (map (\<lambda>j. (0::int, if int j = n - 1 then 0 else - 1 :: int)) [0..<nat n])"
    by (simp add: plan_chunks_length)
next
  fix i assume "i < length (plan_chunks 0 n)"
  then have i: "int i < n" by (simp add: plan_chunks_length)
  then have "i < nat n" by simp
  then show "plan_chunks 0 n ! i
      = map (\<lambda>j. (0, if int j = n - 1 then 0 else - 1)) [0..<nat n] ! i"
    using plan_chunks_nth [OF i, of 0] by simp
qed

lemma resume_check_no_parts:
  assumes "glob_reply w (fmt_s (filename a) @ ''.part*'') = []" and "count a \<noteq> 0"
  shows "resume_check a w = (Inr a, w)"
  using assms by (simp add: resume_check_def)

text \<open>
  C5 as amended. When the response has no \<^verbatim>\<open>Content-Length\<close> header and \<open>N \<ge> 1\<close>,
  \<^verbatim>\<open>get_file_info\<close> raises nothing: the length is 0, the chunk size is 0 and the plan has
  \<open>N\<close> chunks, \<open>(0, -1)\<close> for all but the last and \<open>(0, 0)\<close> for the last. When no part
  file is listed, \<^verbatim>\<open>fetch\<close> then issues one request per chunk and returns normally.
\<close>

theorem missing_content_length_is_zero:
  assumes "head_reply w = Headers None" and "0 < n"
  shows "\<exists>a1. get_file_info (Axel u n) w = (Inr a1, w)
           \<and> content_length a1 = 0 \<and> chunk_size a1 = 0
           \<and> chunks a1 = map (\<lambda>j. Some (0, if int j = n - 1 then 0 else - 1)) [0..<nat n]
           \<and> (glob_reply w (fmt_s (filename a1) @ ''.part*'') = [] \<longrightarrow>
                (\<exists>a3 w3. fetch (Axel u n) w = (Inr a3, w3)
                   \<and> get_log w3 = get_log w
                       @ map (\<lambda>j. (part_name (filename a1) j,
                                   (0, if int j = n - 1 then 0 else - 1))) [0..<nat n]))"
proof -
  define a1 where "a1 = (Axel u n)\<lparr>content_length := 0, chunk_size := 0,
      chunks := map Some (plan_chunks 0 n),
      filename := Some (choose_filename (cwd w) (basename u))\<rparr>"
  have gi: "get_file_info (Axel u n) w = (Inr a1, w)"
    using assms by (simp add: get_file_info_def a1_def Axel_def)
  have ch: "chunks a1 = map (\<lambda>j. Some (0, if int j = n - 1 then 0 else - 1)) [0..<nat n]"
    by (simp add: a1_def plan_chunks_zero [OF assms(2)])
  have cnt: "count a1 = n" by (simp add: a1_def Axel_def)
  have fetches: "\<exists>a3 w3. fetch (Axel u n) w = (Inr a3, w3)
      \<and> get_log w3 = get_log w
          @ map (\<lambda>j. (part_name (filename a1) j, (0, if int j = n - 1 then 0 else - 1))) [0..<nat n]"
    if g: "glob_reply w (fmt_s (filename a1) @ ''.part*'') = []"
  proof -
    have rc: "resume_check a1 w = (Inr a1, w)"
      using g cnt assms(2) by (intro resume_check_no_parts) simp_all
    from spawn_loop_returns [of a1 0 "chunks a1" w] cnt assms(2)
    obtain a3 w3 where sl: "spawn_loop a1 0 (chunks a1) w = (Inr a3, w3)"
      and lg: "get_log w3 = get_log w @ planned_requests (filename a1) 0 (chunks a1)"
      by auto
    have "chunks a1 = map Some (plan_chunks 0 n)" by (simp add: a1_def)
    then have "planned_requests (filename a1) 0 (chunks a1)
        = map (\<lambda>j. (part_name (filename a1) j, plan_chunks 0 n ! (j - 0)))
            [0..<0 + length (plan_chunks 0 n)]"
      using planned_requests_all [of "filename a1" 0 "plan_chunks 0 n"] by simp
    also have "\<dots> = map (\<lambda>j. (part_name (filename a1) j, (0, if int j = n - 1 then 0 else - 1)))
                       [0..<nat n]"
      by (intro map_cong) (simp_all add: plan_chunks_length plan_chunks_zero [OF assms(2)])
    finally have pr: "planned_requests (filename a1) 0 (chunks a1)
        = map (\<lambda>j. (part_name (filename a1) j, (0, if int j = n - 1 then 0 else - 1))) [0..<nat n]" .
    have "fetch (Axel u n) w = (Inr a3, print [] w3)"
      using gi rc sl cnt assms(2) by (simp add: fetch_fresh)
    moreover have "get_log (print [] w3) = get_log w
          @ map (\<lambda>j. (part_name (filename a1) j, (0, if int j = n - 1 then 0 else - 1))) [0..<nat n]"
      by (simp add: lg pr)
    ultimately show ?thesis by blast
  qed
  have "content_length a1 = 0" "chunk_size a1 = 0" by (simp_all add: a1_def)
  with gi ch fetches show ?thesis by blast
qed

theorem missing_content_length_is_zero_witness:
  "head_reply no_length = Headers None
   \<and> (\<exists>a1. get_file_info (Axel ''http://host/f'' 2) no_length = (Inr a1, no_length)
         \<and> content_length a1 = 0 \<and> chunk_size a1 = 0
         \<and> chunks a1 = [Some (0, - 1), Some (0, 0)])
   \<and> (\<exists>a3 w3. fetch (Axel ''http://host/f'' 2) no_length = (Inr a3, w3)
         \<and> length (get_log w3) = 2)"
proof -
  have h: "head_reply no_length = Headers None" by (simp add: no_length_def)
  have g: "\<And>p. glob_reply no_length p = []" by (simp add: no_length_def ten_bytes_def)
  have l: "get_log no_length = []" by (simp add: no_length_def ten_bytes_def)
  have up: "[0..<2] = [0, Suc 0]" by (simp add: upt_rec)
  from missing_content_length_is_zero [OF h, of 2 "''http://host/f''"] g
  obtain a1 a3 w3 where a1: "get_file_info (Axel ''http://host/f'' 2) no_length = (Inr a1, no_length)"
    "content_length a1 = 0" "chunk_size a1 = 0"
    "chunks a1 = map (\<lambda>j. Some (0, if int j = 2 - 1 then 0 else - 1)) [0..<nat 2]"
    and f: "fetch (Axel ''http://host/f'' 2) no_length = (Inr a3, w3)"
    "get_log w3 = get_log no_length
       @ map (\<lambda>j. (part_name (filename a1) j, (0, if int j = 2 - 1 then 0 else - 1))) [0..<nat 2]"
    by auto
  from f have "length (get_log w3) = 2" by (simp add: l)
  with f(1) have B: "\<exists>a3 w3. fetch (Axel ''http://host/f'' 2) no_length = (Inr a3, w3)
         \<and> length (get_log w3) = 2" by blast
  from a1 have A: "\<exists>a1. get_file_info (Axel ''http://host/f'' 2) no_length = (Inr a1, no_length)
         \<and> content_length a1 = 0 \<and> chunk_size a1 = 0
         \<and> chunks a1 = [Some (0, - 1), Some (0, 0)]"
    by (intro exI [of _ a1]) (simp add: up)
  from h A B show ?thesis by blast
qed

section \<open>A fetch that fails\<close>





lemma resume_loop_Inr:
  "resume_loop a globs i fs nc sc w = (Inr r, w') \<Longrightarrow> w' = w"
  by (induction fs arbitrary: i nc sc)
     (auto split: option.splits prod.splits if_splits)

lemma resume_check_Inr:
  assumes "resume_check a w = (Inr a', w')"
  shows "filename a' = filename a" and "count a' = count a" and "files a' = files a"
    and "get_reply w' = get_reply w" and "get_log w' = get_log w" and "cwd w' = cwd w"
proof -
  let ?globs = "glob_reply w (fmt_s (filename a) @ ''.part*'')"
  obtain r wl where rl: "resume_loop a ?globs 0 ?globs [] (startcount a) w = (r, wl)" by force
  from assms rl show "filename a' = filename a" "count a' = count a" "files a' = files a"
    by (auto simp: resume_check_def Let_def split: if_splits sum.splits prod.splits)
  from resume_check_world [of a w] assms
  show "get_reply w' = get_reply w" "get_log w' = get_log w" "cwd w' = cwd w" by simp_all
qed







section \<open>Resuming a partial part file\<close>

lemma resume_loop_extends:
  "resume_loop a globs i fs nc sc w = (Inr (nc', sc'), w')
    \<Longrightarrow> \<exists>xs ys. nc' = nc @ xs \<and> sc' = sc @ ys \<and> length xs = length fs \<and> length ys = length fs"
proof (induction fs arbitrary: i nc sc)
  case Nil
  then show ?case by simp
next
  case (Cons f fs)
  from Cons.prems obtain x y where
    rec: "resume_loop a globs (Suc i) fs (nc @ [x]) (sc @ [y]) w = (Inr (nc', sc'), w')"
    by (auto split: option.splits if_splits)
  from Cons.IH [OF rec] obtain xs ys where
    "nc' = (nc @ [x]) @ xs" "sc' = (sc @ [y]) @ ys" "length xs = length fs" "length ys = length fs"
    by blast
  then have "nc' = nc @ (x # xs) \<and> sc' = sc @ (y # ys)
      \<and> length (x # xs) = length (f # fs) \<and> length (y # ys) = length (f # fs)" by simp
  then show ?case by blast
qed

text \<open>
  When the loop of \<^verbatim>\<open>resume_check\<close> runs to its end, a listed file \<open>k\<close> places further on
  whose size \<open>s\<close> is not the chunk size has passed the test of lines 99-100: its chunk
  now starts \<open>s\<close> bytes later and ends at \<open>(index + 1) * chunk_size - 1\<close>, and \<open>s\<close> is
  recorded in \<^verbatim>\<open>startcount\<close>.
\<close>

lemma resume_loop_partial:
  assumes "resume_loop a globs i fs nc sc w = (Inr (nc', sc'), w')"
    and "k < length fs"
    and "getsize (cwd w) (fs ! k) = Some s"
    and "s \<noteq> chunk_size a"
    and "nth_opt (chunks a) (i + k) = Some (Some (c0, c1))"
  shows "nc' ! (length nc + k) = Some (c0 + s, (int (i + k) + 1) * chunk_size a - 1)
       \<and> sc' ! (length sc + k) = s"
  using assms
proof (induction fs arbitrary: i k nc sc)
  case Nil
  then show ?case by simp
next
  case (Cons f fs)
  show ?case
  proof (cases k)
    case 0
    with Cons.prems have
      rec: "resume_loop a globs (Suc i) fs
              (nc @ [Some (c0 + s, (int i + 1) * chunk_size a - 1)]) (sc @ [s]) w
            = (Inr (nc', sc'), w')"
      by (auto split: option.splits if_splits)
    from resume_loop_extends [OF rec] obtain xs ys where
      "nc' = (nc @ [Some (c0 + s, (int i + 1) * chunk_size a - 1)]) @ xs"
      "sc' = (sc @ [s]) @ ys" by blast
    with 0 show ?thesis by (simp add: nth_append)
  next
    case (Suc k')
    from Cons.prems(1) obtain x y where
      rec: "resume_loop a globs (Suc i) fs (nc @ [x]) (sc @ [y]) w = (Inr (nc', sc'), w')"
      by (auto split: option.splits if_splits)
    have "nc' ! (length (nc @ [x]) + k')
            = Some (c0 + s, (int (Suc i + k') + 1) * chunk_size a - 1)
        \<and> sc' ! (length (sc @ [y]) + k') = s"
      using Cons.prems(2-5) Suc by (intro Cons.IH [OF rec]) simp_all
    with Suc show ?thesis by simp
  qed
qed

text \<open>
  C4 (corrected), the claim as stated fails. \<open>L = 10\<close>, \<open>N = 2\<close>: the part file of segment
  0, whose full length is 5, holds 4 bytes, and part 1 is complete. Because 4 is also
  the end offset recorded for chunk 0, the test \<^verbatim>\<open>sizes[-1] != self.chunks[i][1]\<close> of line
  99 fails: the run ends with \<^verbatim>\<open>sys.exit(1)\<close>, nothing is requested, and the part file
  keeps its 4 bytes.
\<close>

theorem partial_part_counterexample:
  "getsize (cwd part0_one_short) ''f.part000'' = Some 4
   \<and> (0::int) < 4 \<and> 4 < range_length 10 (0, 4)
   \<and> fst (main ''http://host/f'' 2 part0_one_short) = Inl (SystemExit 1)
   \<and> get_log (snd (main ''http://host/f'' 2 part0_one_short)) = []
   \<and> getsize (cwd (snd (main ''http://host/f'' 2 part0_one_short))) ''f.part000'' = Some 4"
  by code_simp

text \<open>
  The last offset of a resource of \<open>len\<close> bytes that lies in the range \<open>c0\<close> to \<open>c1\<close>: the
  inclusive end of the segment planned as \<open>(c0, c1)\<close>.
\<close>

definition range_end :: "int \<Rightarrow> int \<times> int \<Rightarrow> int" where
  "range_end len r = (case r of (c0, c1) \<Rightarrow> min c1 (len - 1))"

text \<open>
  Every segment but a last one that takes a remainder covers \<^verbatim>\<open>chunk_size\<close> bytes of the
  resource, from \<open>i * chunk_size\<close> to \<open>(i + 1) * chunk_size - 1\<close>.
\<close>

lemma segment_of_chunk_size:
  assumes "0 < n" and "int i < n" and "int i < n - 1 \<or> n dvd len"
    and "0 < range_length len (plan_chunks len n ! i)"
  shows "range_length len (plan_chunks len n ! i) = len div n"
    and "range_end len (plan_chunks len n ! i) = (int i + 1) * (len div n) - 1"
    and "fst (plan_chunks len n ! i) = int i * (len div n)"
proof -
  define cs where "cs = len div n"
  have pc: "plan_chunks len n ! i
      = (int i * cs, if int i = n - 1 then len else (int i + 1) * cs - 1)"
    using plan_chunks_nth [OF assms(2), of len] by (simp add: cs_def)
  show "fst (plan_chunks len n ! i) = int i * (len div n)" by (simp add: pc cs_def)
  have le: "n * cs \<le> len"
  proof -
    have "0 \<le> len mod n" using assms(1) by simp
    moreover have "n * (len div n) + len mod n = len" by simp
    ultimately show ?thesis unfolding cs_def by linarith
  qed
  have both: "range_length len (plan_chunks len n ! i) = cs
      \<and> range_end len (plan_chunks len n ! i) = (int i + 1) * cs - 1"
  proof (cases "int i = n - 1")
    case True
    with assms(3) have "n dvd len" by simp
    then have eq: "n * cs = len" by (simp add: cs_def)
    have n1: "int i + 1 = n" using True by simp
    have e: "(int i + 1) * cs - 1 = len - 1" using eq by (simp add: n1)
    have st: "int i * cs = len - cs" using e by (simp add: algebra_simps)
    have "range_length len (plan_chunks len n ! i) = max 0 cs"
      using True st by (simp add: pc range_length_def)
    moreover from this assms(4) have "0 < cs" by (simp add: cs_def)
    ultimately show ?thesis using True e by (simp add: pc range_end_def)
  next
    case False
    with assms(2) have inner: "int i < n - 1" by simp
    have w: "(int i + 1) * cs - 1 - int i * cs + 1 = cs" by (simp add: algebra_simps)
    have "int i * cs < (int i + 1) * cs"
      using assms(4) False by (simp add: pc range_length_def)
    then have pos: "0 < cs" by (simp add: algebra_simps)
    have "(int i + 1) * cs \<le> n * cs"
      using inner pos by (intro mult_right_mono) simp_all
    with le have "(int i + 1) * cs - 1 \<le> len - 1" by linarith
    then have m: "min ((int i + 1) * cs - 1) (len - 1) = (int i + 1) * cs - 1" by simp
    show ?thesis using False m w pos by (simp add: pc range_length_def range_end_def)
  qed
  then show "range_length len (plan_chunks len n ! i) = len div n"
    and "range_end len (plan_chunks len n ! i) = (int i + 1) * (len div n) - 1"
    by (simp_all add: cs_def)
qed

text \<open>
  C4 as amended. Let \<open>N\<close> part files be listed, let reconciliation accept them, and let
  position \<open>i\<close> of the listing hold the part file of segment \<open>i\<close>, where segment \<open>i\<close> is
  any segment but a last one that takes a remainder (\<open>i < N - 1\<close>, or \<open>N\<close> divides \<open>L\<close>).
  Let the size \<open>s\<close> of the file satisfy \<open>0 < s\<close>, \<open>s\<close> below the segment's full length, and
  \<open>s\<close> different from the end offset recorded for the chunk. Then the chunk becomes
  \<open>(start + s, e)\<close>, \<open>e\<close> being the last byte of the segment, \<open>s\<close> is recorded in
  \<^verbatim>\<open>startcount\<close>, \<^verbatim>\<open>fetch\<close> issues for that part file exactly the request for this range
  and appends what is received to the file; when the reply holds exactly the bytes of
  the range, the part file ends with its full length.
\<close>

theorem partial_part_is_resumed:
  assumes "get_file_info (Axel u n) w = (Inr a1, w1)"
    and "resume_check a1 w = (Inr a2, w2)"
    and "glob_reply w (fmt_s (filename a1) @ ''.part*'') = globs"
    and "int (length globs) = n"
    and "i < length globs"
    and "int i < n - 1 \<or> n dvd content_length a1"
    and "globs ! i = part_name (filename a1) i"
    and "map_of (cwd w) (globs ! i) = Some old" and "s = int (length old)"
    and "chunks a1 ! i = Some (c0, c1)"
    and "0 < s" and "s < range_length (content_length a1) (c0, c1)"
    and "s \<noteq> c1"
    and "e = range_end (content_length a1) (c0, c1)"
  shows "chunks a2 ! i = Some (c0 + s, e)
       \<and> startcount a2 ! i = s
       \<and> (\<exists>a3 w3 reqs. fetch (Axel u n) w = (Inr a3, w3)
            \<and> get_log w3 = get_log w @ reqs
            \<and> {r. (part_name (filename a1) i, r) \<in> set reqs} = {(c0 + s, e)}
            \<and> map_of (cwd w3) (part_name (filename a1) i)
                = (case received (get_reply w (part_name (filename a1) i) (c0 + s, e)) of
                     None \<Rightarrow> Some old
                   | Some data \<Rightarrow> Some (old @ data))
            \<and> (\<forall>data. received (get_reply w (part_name (filename a1) i) (c0 + s, e)) = Some data
                      \<and> int (length data) = e - (c0 + s) + 1
                  \<longrightarrow> getsize (cwd w3) (part_name (filename a1) i)
                        = Some (range_length (content_length a1) (c0, c1))))"
proof -
  define len where "len = content_length a1"
  define cs where "cs = len div n"
  let ?name = "part_name (filename a1) i"
  note info = get_file_info_Inr [OF assms(1)]
  note rc = resume_check_Inr [OF assms(2)]
  have cnt: "count a1 = n" using info(1) by (simp add: Axel_def)
  have csz: "chunk_size a1 = cs" using info(4) by (simp add: Axel_def cs_def len_def)
  have chs: "chunks a1 = map Some (plan_chunks len n)"
    using info(5) by (simp add: Axel_def len_def)
  have sc0: "startcount a1 = []" using info(8) by (simp add: Axel_def)
  have lg: "length globs = nat n" using assms(4) by simp
  have i_g: "i < length globs" by (rule assms(5))
  have i_n: "int i < n" using assms(4,5) by simp
  from i_n have npos: "0 < n" by simp
  have whole: "int i < n - 1 \<or> n dvd len" using assms(6) by (simp add: len_def)
  have pc: "plan_chunks len n ! i = (c0, c1)"
    using assms(10) i_n by (simp add: chs plan_chunks_length)
  have s_full: "s < range_length len (c0, c1)" using assms(12) by (simp add: len_def)
  have rpos: "0 < range_length len (plan_chunks len n ! i)"
    using assms(11) s_full by (simp add: pc)
  note seg = segment_of_chunk_size [OF npos i_n whole rpos]
  have full: "range_length len (c0, c1) = cs" using seg(1) by (simp add: pc cs_def)
  have "range_end len (c0, c1) = (int i + 1) * cs - 1"
    using seg(2) by (simp add: pc cs_def)
  then have e: "e = (int i + 1) * cs - 1" using assms(14) by (simp add: len_def)
  have c0: "c0 = int i * cs" using seg(3) by (simp add: pc cs_def)
  have width: "e - c0 + 1 = cs" using e c0 by (simp add: algebra_simps)
  have s_cs: "s < cs" using s_full full by simp
  have sz: "getsize (cwd w) (globs ! i) = Some s"
    using assms(8,9) by (simp add: getsize_def)
  have nth: "nth_opt (chunks a1) (0 + i) = Some (Some (c0, c1))"
    using assms(10) i_n by (simp add: nth_opt_def chs plan_chunks_length)
  obtain r wl where loop: "resume_loop a1 globs 0 globs [] (startcount a1) w = (r, wl)"
    by force
  with assms(2,3,4) cnt obtain nc sc where
    r: "r = Inr (nc, sc)" and a2: "a2 = a1\<lparr>chunks := nc, startcount := sc\<rparr>"
    by (auto simp: resume_check_def split: sum.splits)
  from resume_loop_partial [OF loop [unfolded r] i_g sz _ nth] s_cs csz
  have "nc ! i = Some (c0 + s, (int (0 + i) + 1) * cs - 1)" and sci: "sc ! i = s"
    by (simp_all add: sc0)
  then have nci: "nc ! i = Some (c0 + s, e)" using e by simp
  from resume_loop_extends [OF loop [unfolded r]] have lnc: "length nc = length globs"
    by auto
  have A: "chunks a2 ! i = Some (c0 + s, e)" using nci by (simp add: a2)
  have B: "startcount a2 ! i = s" using sci by (simp add: a2)
  have cnt2: "count a2 = n" using rc(2) cnt by simp
  have fn2: "filename a2 = filename a1" using rc(1) .
  have i_c: "i < length (chunks a2)" using i_g lnc by (simp add: a2)
  from spawn_loop_returns [of a2 0 "chunks a2" w2] cnt2 npos
  obtain a3 w3 where sl: "spawn_loop a2 0 (chunks a2) w2 = (Inr a3, w3)"
    and log: "get_log w3 = get_log w2 @ planned_requests (filename a2) 0 (chunks a2)"
    by auto
  let ?reqs = "planned_requests (filename a1) 0 (chunks a2)"
  have f: "fetch (Axel u n) w = (Inr a3, print [] w3)"
    using assms(1,2) info(2) sl cnt2 npos by (simp add: fetch_fresh)
  have C: "get_log (print [] w3) = get_log w @ ?reqs"
    using log rc(5) fn2 by simp
  have D: "{r. (?name, r) \<in> set ?reqs} = {(c0 + s, e)}"
  proof (intro set_eqI iffI)
    fix r assume "r \<in> {r. (?name, r) \<in> set ?reqs}"
    then obtain k where "k < length (chunks a2)" "?name = part_name (filename a1) (0 + k)"
      "chunks a2 ! k = Some r"
      using planned_requests_mem [of ?name r "filename a1" 0 "chunks a2"] by auto
    moreover from this have "k = i" using part_name_inj [of "filename a1" i k] by simp
    ultimately show "r \<in> {(c0 + s, e)}" using A by simp
  next
    fix r assume "r \<in> {(c0 + s, e)}"
    then have "\<exists>k<length (chunks a2). ?name = part_name (filename a1) (0 + k)
        \<and> chunks a2 ! k = Some r"
      using A i_c by (intro exI [of _ i]) simp
    then show "r \<in> {r. (?name, r) \<in> set ?reqs}"
      using planned_requests_mem [of ?name r "filename a1" 0 "chunks a2"] by simp
  qed
  have oldw2: "map_of (cwd w2) ?name = Some old" using assms(7,8) rc(6) by simp
  from spawn_loop_part_file [of a2 i "chunks a2" 0 w2] cnt2 npos i_c
  have "map_of (cwd (snd (spawn_loop a2 0 (chunks a2) w2))) (part_name (filename a2) (0 + i)) =
     (case chunks a2 ! i of
        None \<Rightarrow> map_of (cwd w2) (part_name (filename a2) (0 + i))
      | Some chunk \<Rightarrow>
          (case received (get_reply w2 (part_name (filename a2) (0 + i)) chunk) of
             None \<Rightarrow> map_of (cwd w2) (part_name (filename a2) (0 + i))
           | Some data \<Rightarrow>
               Some ((case map_of (cwd w2) (part_name (filename a2) (0 + i)) of
                        None \<Rightarrow> [] | Some old \<Rightarrow> old) @ data)))"
    by simp
  then have E: "map_of (cwd (print [] w3)) ?name
      = (case received (get_reply w ?name (c0 + s, e)) of
           None \<Rightarrow> Some old | Some data \<Rightarrow> Some (old @ data))"
    by (simp add: sl fn2 A oldw2 rc(4) split: option.splits)
  have F: "\<forall>data. received (get_reply w ?name (c0 + s, e)) = Some data
                  \<and> int (length data) = e - (c0 + s) + 1
             \<longrightarrow> getsize (cwd (print [] w3)) ?name = Some (range_length (content_length a1) (c0, c1))"
  proof (intro allI impI)
    fix data
    assume d: "received (get_reply w ?name (c0 + s, e)) = Some data
                  \<and> int (length data) = e - (c0 + s) + 1"
    then have "map_of (cwd (print [] w3)) ?name = Some (old @ data)" using E by simp
    moreover have "int (length (old @ data)) = cs" using d assms(9) width by simp
    ultimately show "getsize (cwd (print [] w3)) ?name
        = Some (range_length (content_length a1) (c0, c1))"
      using full by (simp add: getsize_def len_def)
  qed
  from f C D E F have "\<exists>a3 w3 reqs. fetch (Axel u n) w = (Inr a3, w3)
            \<and> get_log w3 = get_log w @ reqs
            \<and> {r. (?name, r) \<in> set reqs} = {(c0 + s, e)}
            \<and> map_of (cwd w3) ?name
                = (case received (get_reply w ?name (c0 + s, e)) of
                     None \<Rightarrow> Some old
                   | Some data \<Rightarrow> Some (old @ data))
            \<and> (\<forall>data. received (get_reply w ?name (c0 + s, e)) = Some data
                      \<and> int (length data) = e - (c0 + s) + 1
                  \<longrightarrow> getsize (cwd w3) ?name
                        = Some (range_length (content_length a1) (c0, c1)))"
    by blast
  with A B show ?thesis by blast
qed

text \<open>
  Two resumes of the ten-byte resource. With \<open>N = 2\<close>, part 0 holds 2 of its 5 bytes and
  part 1 is complete. With \<open>N = 1\<close>, the only part holds 4 of its 10 bytes.
\<close>

definition part0_two_bytes :: world where
  "part0_two_bytes =
     with_parts [(''f.part000'', ''01''), (''f.part001'', ''56789'')]
       [''f.part000'', ''f.part001'']"

definition single_part :: world where
  "single_part = with_parts [(''f.part000'', ''0123'')] [''f.part000'']"

definition planned_one :: axel where
  "planned_one =
     \<lparr>count = 1, url = ''http://host/f'', content_length = 10, startcount = [],
      filename = Some ''f'', chunk_size = 10, chunks = [Some (0, 10)], files = []\<rparr>"

lemma get_file_info_part0_two_bytes:
  "get_file_info (Axel ''http://host/f'' 2) part0_two_bytes = (Inr planned_two, part0_two_bytes)"
proof -
  have "fst (get_file_info (Axel ''http://host/f'' 2) part0_two_bytes) = Inr planned_two"
    by code_simp
  then show ?thesis
    using get_file_info_world [of "Axel ''http://host/f'' 2" part0_two_bytes]
    by (metis prod.collapse)
qed

lemma resume_check_part0_two_bytes:
  "fst (resume_check planned_two part0_two_bytes)
     = Inr (planned_two\<lparr>chunks := [Some (2, 4), None], startcount := [2, 5]\<rparr>)"
  by code_simp

lemma get_file_info_single_part:
  "get_file_info (Axel ''http://host/f'' 1) single_part = (Inr planned_one, single_part)"
proof -
  have "fst (get_file_info (Axel ''http://host/f'' 1) single_part) = Inr planned_one"
    by code_simp
  then show ?thesis
    using get_file_info_world [of "Axel ''http://host/f'' 1" single_part]
    by (metis prod.collapse)
qed

lemma resume_check_single_part:
  "fst (resume_check planned_one single_part)
     = Inr (planned_one\<lparr>chunks := [Some (4, 9)], startcount := [4]\<rparr>)"
  by code_simp

theorem partial_part_is_resumed_witness:
  "get_file_info (Axel ''http://host/f'' 2) part0_two_bytes = (Inr planned_two, part0_two_bytes)
   \<and> fst (resume_check planned_two part0_two_bytes)
       = Inr (planned_two\<lparr>chunks := [Some (2, 4), None], startcount := [2, 5]\<rparr>)
   \<and> getsize (cwd part0_two_bytes) ''f.part000'' = Some 2
   \<and> 2 < range_length (content_length planned_two) (0, 4)
   \<and> (\<exists>a3 w3 reqs. fetch (Axel ''http://host/f'' 2) part0_two_bytes = (Inr a3, w3)
         \<and> get_log w3 = get_log part0_two_bytes @ reqs
         \<and> {r. (''f.part000'', r) \<in> set reqs} = {(2, 4)}
         \<and> map_of (cwd w3) ''f.part000'' = Some ''01234''
         \<and> getsize (cwd w3) ''f.part000'' = Some 5)
   \<and> get_file_info (Axel ''http://host/f'' 1) single_part = (Inr planned_one, single_part)
   \<and> fst (resume_check planned_one single_part)
       = Inr (planned_one\<lparr>chunks := [Some (4, 9)], startcount := [4]\<rparr>)
   \<and> getsize (cwd single_part) ''f.part000'' = Some 4
   \<and> 4 < range_length (content_length planned_one) (0, 10)
   \<and> (\<exists>a3 w3 reqs. fetch (Axel ''http://host/f'' 1) single_part = (Inr a3, w3)
         \<and> get_log w3 = get_log single_part @ reqs
         \<and> {r. (''f.part000'', r) \<in> set reqs} = {(4, 9)}
         \<and> map_of (cwd w3) ''f.part000'' = Some ''0123456789''
         \<and> getsize (cwd w3) ''f.part000'' = Some 10)"
proof -
  have pn: "part_name (Some ''f'') 0 = ''f.part000''" by code_simp
  have first: "fst (resume_check planned_two part0_two_bytes)
       = Inr (planned_two\<lparr>chunks := [Some (2, 4), None], startcount := [2, 5]\<rparr>)
   \<and> getsize (cwd part0_two_bytes) ''f.part000'' = Some 2
   \<and> 2 < range_length (content_length planned_two) (0, 4)
   \<and> (\<exists>a3 w3 reqs. fetch (Axel ''http://host/f'' 2) part0_two_bytes = (Inr a3, w3)
         \<and> get_log w3 = get_log part0_two_bytes @ reqs
         \<and> {r. (''f.part000'', r) \<in> set reqs} = {(2, 4)}
         \<and> map_of (cwd w3) ''f.part000'' = Some ''01234''
         \<and> getsize (cwd w3) ''f.part000'' = Some 5)"
  proof -
    let ?w = part0_two_bytes
    let ?a2 = "planned_two\<lparr>chunks := [Some (2, 4), None], startcount := [2, 5]\<rparr>"
    let ?globs = "[''f.part000'', ''f.part001'']"
    have fn: "filename planned_two = Some ''f''" by (simp add: planned_two_def)
    have rc: "resume_check planned_two ?w = (Inr ?a2, snd (resume_check planned_two ?w))"
      using resume_check_part0_two_bytes by (metis prod.collapse)
    have g: "glob_reply ?w (fmt_s (filename planned_two) @ ''.part*'') = ?globs"
      by (simp add: part0_two_bytes_def with_parts_def planned_two_def fmt_s_def)
    have n: "int (length ?globs) = 2" by simp
    have i: "0 < length ?globs" by simp
    have inner: "int 0 < 2 - 1 \<or> (2::int) dvd content_length planned_two" by simp
    have nm: "?globs ! 0 = part_name (filename planned_two) 0" by (simp add: fn pn)
    have old: "map_of (cwd ?w) (?globs ! 0) = Some ''01''"
      by (simp add: part0_two_bytes_def with_parts_def)
    have s: "(2::int) = int (length ''01'')" by simp
    have ch: "chunks planned_two ! 0 = Some (0, 4)" by (simp add: planned_two_def)
    have lt: "2 < range_length (content_length planned_two) (0, 4)"
      by (simp add: planned_two_def range_length_def)
    have e: "(4::int) = range_end (content_length planned_two) (0, 4)"
      by (simp add: planned_two_def range_end_def)
    have sz: "getsize (cwd ?w) ''f.part000'' = Some 2"
      by (simp add: part0_two_bytes_def with_parts_def getsize_def)
    have rcv: "received (get_reply ?w ''f.part000'' (2, 4)) = Some ''234''"
      by (simp add: part0_two_bytes_def with_parts_def ten_bytes_def serve_def received_def)
    have full: "range_length (content_length planned_two) (0, 4) = 5"
      by (simp add: planned_two_def range_length_def)
    from partial_part_is_resumed
           [OF get_file_info_part0_two_bytes rc g n i inner nm old s ch _ lt _ e]
    obtain a3 w3 reqs where f: "fetch (Axel ''http://host/f'' 2) ?w = (Inr a3, w3)"
      and lg: "get_log w3 = get_log ?w @ reqs"
      and rq: "{r. (part_name (filename planned_two) 0, r) \<in> set reqs} = {(0 + 2, 4)}"
      and fl: "map_of (cwd w3) (part_name (filename planned_two) 0)
                  = (case received (get_reply ?w (part_name (filename planned_two) 0) (0 + 2, 4)) of
                       None \<Rightarrow> Some ''01'' | Some data \<Rightarrow> Some (''01'' @ data))"
      and fu: "\<forall>data. received (get_reply ?w (part_name (filename planned_two) 0) (0 + 2, 4)) = Some data
                        \<and> int (length data) = 4 - (0 + 2) + 1
                    \<longrightarrow> getsize (cwd w3) (part_name (filename planned_two) 0)
                          = Some (range_length (content_length planned_two) (0, 4))"
      by auto
    from rq have rq': "{r. (''f.part000'', r) \<in> set reqs} = {(2, 4)}" by (simp add: fn pn)
    from fl have fl': "map_of (cwd w3) ''f.part000'' = Some ''01234''" by (simp add: fn pn rcv)
    from fu rcv have fu': "getsize (cwd w3) ''f.part000'' = Some 5" by (simp add: fn pn full)
    from f lg rq' fl' fu' have "\<exists>a3 w3 reqs. fetch (Axel ''http://host/f'' 2) ?w = (Inr a3, w3)
           \<and> get_log w3 = get_log ?w @ reqs
           \<and> {r. (''f.part000'', r) \<in> set reqs} = {(2, 4)}
           \<and> map_of (cwd w3) ''f.part000'' = Some ''01234''
           \<and> getsize (cwd w3) ''f.part000'' = Some 5" by blast
    with resume_check_part0_two_bytes sz lt show ?thesis by blast
  qed
  have second: "fst (resume_check planned_one single_part)
       = Inr (planned_one\<lparr>chunks := [Some (4, 9)], startcount := [4]\<rparr>)
   \<and> getsize (cwd single_part) ''f.part000'' = Some 4
   \<and> 4 < range_length (content_length planned_one) (0, 10)
   \<and> (\<exists>a3 w3 reqs. fetch (Axel ''http://host/f'' 1) single_part = (Inr a3, w3)
         \<and> get_log w3 = get_log single_part @ reqs
         \<and> {r. (''f.part000'', r) \<in> set reqs} = {(4, 9)}
         \<and> map_of (cwd w3) ''f.part000'' = Some ''0123456789''
         \<and> getsize (cwd w3) ''f.part000'' = Some 10)"
  proof -
    let ?w = single_part
    let ?a2 = "planned_one\<lparr>chunks := [Some (4, 9)], startcount := [4]\<rparr>"
    let ?globs = "[''f.part000'']"
    have fn: "filename planned_one = Some ''f''" by (simp add: planned_one_def)
    have rc: "resume_check planned_one ?w = (Inr ?a2, snd (resume_check planned_one ?w))"
      using resume_check_single_part by (metis prod.collapse)
    have g: "glob_reply ?w (fmt_s (filename planned_one) @ ''.part*'') = ?globs"
      by (simp add: single_part_def with_parts_def planned_one_def fmt_s_def)
    have n: "int (length ?globs) = 1" by simp
    have i: "0 < length ?globs" by simp
    have whole: "int 0 < 1 - 1 \<or> (1::int) dvd content_length planned_one" by simp
    have nm: "?globs ! 0 = part_name (filename planned_one) 0" by (simp add: fn pn)
    have old: "map_of (cwd ?w) (?globs ! 0) = Some ''0123''"
      by (simp add: single_part_def with_parts_def)
    have s: "(4::int) = int (length ''0123'')" by simp
    have ch: "chunks planned_one ! 0 = Some (0, 10)" by (simp add: planned_one_def)
    have lt: "4 < range_length (content_length planned_one) (0, 10)"
      by (simp add: planned_one_def range_length_def)
    have e: "(9::int) = range_end (content_length planned_one) (0, 10)"
      by (simp add: planned_one_def range_end_def)
    have sz: "getsize (cwd ?w) ''f.part000'' = Some 4"
      by (simp add: single_part_def with_parts_def getsize_def)
    have rcv: "received (get_reply ?w ''f.part000'' (4, 9)) = Some ''456789''"
      by (simp add: single_part_def with_parts_def ten_bytes_def serve_def received_def)
    have full: "range_length (content_length planned_one) (0, 10) = 10"
      by (simp add: planned_one_def range_length_def)
    from partial_part_is_resumed
           [OF get_file_info_single_part rc g n i whole nm old s ch _ lt _ e]
    obtain a3 w3 reqs where f: "fetch (Axel ''http://host/f'' 1) ?w = (Inr a3, w3)"
      and lg: "get_log w3 = get_log ?w @ reqs"
      and rq: "{r. (part_name (filename planned_one) 0, r) \<in> set reqs} = {(0 + 4, 9)}"
      and fl: "map_of (cwd w3) (part_name (filename planned_one) 0)
                  = (case received (get_reply ?w (part_name (filename planned_one) 0) (0 + 4, 9)) of
                       None \<Rightarrow> Some ''0123'' | Some data \<Rightarrow> Some (''0123'' @ data))"
      and fu: "\<forall>data. received (get_reply ?w (part_name (filename planned_one) 0) (0 + 4, 9)) = Some data
                        \<and> int (length data) = 9 - (0 + 4) + 1
                    \<longrightarrow> getsize (cwd w3) (part_name (filename planned_one) 0)
                          = Some (range_length (content_length planned_one) (0, 10))"
      by auto
    from rq have rq': "{r. (''f.part000'', r) \<in> set reqs} = {(4, 9)}" by (simp add: fn pn)
    from fl have fl': "map_of (cwd w3) ''f.part000'' = Some ''0123456789''"
      by (simp add: fn pn rcv)
    from fu rcv have fu': "getsize (cwd w3) ''f.part000'' = Some 10" by (simp add: fn pn full)
    from f lg rq' fl' fu' have "\<exists>a3 w3 reqs. fetch (Axel ''http://host/f'' 1) ?w = (Inr a3, w3)
           \<and> get_log w3 = get_log ?w @ reqs
           \<and> {r. (''f.part000'', r) \<in> set reqs} = {(4, 9)}
           \<and> map_of (cwd w3) ''f.part000'' = Some ''0123456789''
           \<and> getsize (cwd w3) ''f.part000'' = Some 10" by blast
    with resume_check_single_part sz lt show ?thesis by blast
  qed
  from first second get_file_info_part0_two_bytes get_file_info_single_part
  show ?thesis by blast
qed

text \<open>
  The last segment with a remainder (the code departs from C3 and C4 here). \<open>L = 10\<close>,
  \<open>N = 3\<close>: the last segment holds 4 bytes. When its part file holds 2 of them, line 103
  ends the resumed range at \<open>N * chunk_size - 1 = 8\<close>: the request is for \<open>(8, 8)\<close>, the
  byte at offset 9 is never fetched, and the run ends with status 0 and an output of 9
  bytes. When its part file holds 3 of them, line 96 takes it for complete: nothing is
  requested, and the run again ends with status 0 and an output of 9 bytes.
\<close>

definition last_part_short :: "bytes \<Rightarrow> world" where
  "last_part_short part2 =
     with_parts [(''f.part000'', ''012''), (''f.part001'', ''345''), (''f.part002'', part2)]
       [''f.part000'', ''f.part001'', ''f.part002'']"

theorem resumed_last_part_is_truncated:
  "range_length 10 (6, 10) = 4
   \<and> exit_status (main ''http://host/f'' 3 (last_part_short ''67'')) = Some 0
   \<and> get_log (snd (main ''http://host/f'' 3 (last_part_short ''67''))) = [(''f.part002'', (8, 8))]
   \<and> cwd (snd (main ''http://host/f'' 3 (last_part_short ''67''))) = [(''f'', ''012345678'')]
   \<and> exit_status (main ''http://host/f'' 3 (last_part_short ''678'')) = Some 0
   \<and> get_log (snd (main ''http://host/f'' 3 (last_part_short ''678''))) = []
   \<and> cwd (snd (main ''http://host/f'' 3 (last_part_short ''678''))) = [(''f'', ''012345678'')]"
  by code_simp

section \<open>What holds of the planner and of a complete resume\<close>

text \<open>
  For every \<open>L\<close> and \<open>N \<ge> 1\<close> the planner produces \<open>N\<close> chunks; chunk \<open>i\<close> for \<open>i < N - 1\<close> is
  \<open>(i * chunk_size, (i + 1) * chunk_size - 1)\<close> with \<open>chunk_size = L div N\<close>; the last chunk
  starts at \<open>(N - 1) * chunk_size\<close> and its recorded end is \<open>L\<close>; each chunk starts one past
  the end of the chunk before it, and the first starts at 0.
\<close>

theorem plan_chunks_shape:
  assumes "1 \<le> n"
  shows "length (plan_chunks len n) = nat n
       \<and> (\<forall>i. int i < n - 1 \<longrightarrow>
             plan_chunks len n ! i = (int i * (len div n), (int i + 1) * (len div n) - 1))
       \<and> plan_chunks len n ! nat (n - 1) = ((n - 1) * (len div n), len)
       \<and> (\<forall>i. int i < n - 1 \<longrightarrow>
             fst (plan_chunks len n ! Suc i) = snd (plan_chunks len n ! i) + 1)
       \<and> fst (plan_chunks len n ! 0) = 0"
proof -
  have inner: "plan_chunks len n ! i = (int i * (len div n), (int i + 1) * (len div n) - 1)"
    if "int i < n - 1" for i
    using that plan_chunks_nth [of i n len] by simp
  have last: "plan_chunks len n ! nat (n - 1) = ((n - 1) * (len div n), len)"
    using assms plan_chunks_nth [of "nat (n - 1)" n len] by simp
  have start: "fst (plan_chunks len n ! j) = int j * (len div n)" if "int j < n" for j
    using that plan_chunks_nth [of j n len] by simp
  have contiguous: "fst (plan_chunks len n ! Suc i) = snd (plan_chunks len n ! i) + 1"
    if "int i < n - 1" for i
  proof -
    have "int (Suc i) < n" using that by simp
    from start [OF this] inner [OF that] show ?thesis by simp
  qed
  have "fst (plan_chunks len n ! 0) = 0" using start [of 0] assms by simp
  with inner last contiguous show ?thesis by (simp add: plan_chunks_length)
qed

theorem plan_chunks_shape_witness:
  "(1::int) \<le> 3
   \<and> plan_chunks 10 3 = [(0, 2), (3, 5), (6, 10)]
   \<and> length (plan_chunks 10 3) = nat 3
   \<and> plan_chunks 10 3 ! nat (3 - 1) = ((3 - 1) * (10 div 3), 10)"
proof -
  have "plan_chunks 10 3 = [(0, 2), (3, 5), (6, 10)]" by code_simp
  with plan_chunks_shape [of 10 3] show ?thesis by simp
qed

lemma resume_loop_all_complete:
  "list_all (\<lambda>f. getsize (cwd w) f = Some (chunk_size a)) fs
    \<Longrightarrow> resume_loop a globs i fs nc sc w
          = (Inr (nc @ replicate (length fs) None, sc @ replicate (length fs) (chunk_size a)), w)"
proof (induction fs arbitrary: i nc sc)
  case Nil
  then show ?case by simp
next
  case (Cons f fs)
  then show ?case by (simp add: replicate_app_Cons_same)
qed

lemma spawn_loop_all_none:
  "spawn_loop a i (replicate m None) w
     = (Inr (a\<lparr>files := files a @ map (part_name (filename a)) [i..<i + m]\<rparr>), w)"
proof (induction m arbitrary: a i)
  case 0
  then show ?case by simp
next
  case (Suc m)
  show ?case using Suc [of "a\<lparr>files := files a @ [part_name (filename a) i]\<rparr>" "Suc i"]
    by (simp add: Let_def upt_from del: upt_Suc)
qed

lemma length_concat_equal:
  "list_all (\<lambda>c. int (length c) = k) cs \<Longrightarrow> int (length (concat cs)) = int (length cs) * k"
  by (induction cs) (simp_all add: algebra_simps)

text \<open>
  When \<open>N\<close> divides the content length, \<open>N\<close> part files are listed and each holds
  \<^verbatim>\<open>chunk_size\<close> bytes, and the part files \<open>0\<close> to \<open>N - 1\<close> exist with contents of that
  length, the run issues no request, records every size in \<^verbatim>\<open>startcount\<close>, ends with
  status 0, and the output file is the concatenation of the part files, of the
  content length.
\<close>

theorem complete_parts_are_stitched:
  assumes "get_file_info (Axel u n) w = (Inr a1, w1)"
    and "0 < n" and "n dvd content_length a1"
    and "glob_reply w (fmt_s (filename a1) @ ''.part*'') = globs"
    and "int (length globs) = n"
    and "list_all (\<lambda>f. getsize (cwd w) f = Some (chunk_size a1)) globs"
    and "map (map_of (cwd w)) (map (part_name (filename a1)) [0..<nat n]) = map Some contents"
    and "list_all (\<lambda>c. int (length c) = chunk_size a1) contents"
    and "filename a1 = Some out" and "openable out"
  shows "exit_status (main u n w) = Some 0
       \<and> get_log (snd (main u n w)) = get_log w
       \<and> (\<exists>a3. fst (main u n w) = Inr a3
             \<and> chunks a3 = replicate (nat n) None
             \<and> startcount a3 = replicate (nat n) (chunk_size a1))
       \<and> map_of (cwd (snd (main u n w))) out = Some (concat contents)
       \<and> getsize (cwd (snd (main u n w))) out = Some (content_length a1)"
proof -
  note info = get_file_info_Inr [OF assms(1)]
  have cnt: "count a1 = n" using info(1) by (simp add: Axel_def)
  have lg: "length globs = nat n" using assms(5) by simp
  have fl: "files a1 = []" and sc: "startcount a1 = []"
    using info(7,8) by (simp_all add: Axel_def)
  define a2 where "a2 = a1\<lparr>chunks := replicate (nat n) None,
                             startcount := replicate (nat n) (chunk_size a1)\<rparr>"
  define msg where "msg = ''partial files already exist and match count ('' @ str_int (count a1)
                     @ ''). There is the posibility of creating a non working file. ''
                     @ ''Please check hashes after download completion'' @ nl"
  have rc: "resume_check a1 w = (Inr a2, print msg w)"
    using assms(4,5) cnt resume_loop_all_complete [OF assms(6), of globs 0 "[]" "startcount a1"]
    by (simp add: resume_check_def a2_def msg_def lg sc)
  define a3 where "a3 = a2\<lparr>files := map (part_name (filename a1)) [0..<nat n]\<rparr>"
  have sl: "spawn_loop a2 0 (chunks a2) (print msg w) = (Inr a3, print msg w)"
    using spawn_loop_all_none [of a2 0 "nat n" "print msg w"]
    by (simp add: a2_def a3_def fl)
  have f: "fetch (Axel u n) w = (Inr a3, print [] (print msg w))"
    using assms(1,2) info(2) rc sl cnt by (simp add: fetch_fresh a2_def)
  then have m: "main u n w = stitch a3 (print [] (print msg w))"
    by (simp add: main_def fetch_n_stitch_def)
  have 1: "filename a3 = Some out" using assms(9) by (simp add: a3_def a2_def)
  have 3: "files a3 \<noteq> []" using assms(2) by (simp add: a3_def)
  have 4: "distinct (files a3)" using part_names_distinct by (simp add: a3_def)
  have 5: "out \<notin> set (files a3)"
  proof
    assume "out \<in> set (files a3)"
    then obtain x where "out = part_name (Some out) x" using assms(9) by (auto simp: a3_def)
    with part_name_not_output [of "Some out" x] show False by (simp add: fmt_s_def)
  qed
  have 6: "''-'' \<notin> set (files a3)"
  proof
    assume "''-'' \<in> set (files a3)"
    then obtain x where "part_name (filename a1) x = ''-''" by (auto simp: a3_def a2_def)
    with part_name_not_dash [of "filename a1" x] show False by simp
  qed
  have 7: "map (map_of (cwd (print [] (print msg w)))) (files a3) = map Some contents"
    using assms(7) by (simp add: a3_def)
  from stitch_result [OF 1 assms(10) 3 4 5 6 7] obtain w2 where
    st: "stitch a3 (print [] (print msg w)) = (Inr a3, w2)"
    and m2: "\<And>k. map_of (cwd w2) k =
               (if k \<in> set (files a3) then None
                else if k = out then Some (concat contents)
                else map_of (cwd (print [] (print msg w))) k)"
    and l2: "get_log w2 = get_log (print [] (print msg w))"
    by auto
  have out: "map_of (cwd w2) out = Some (concat contents)" using 5 by (simp add: m2)
  have "length contents = nat n"
    using assms(7) by (metis length_map length_upt diff_zero)
  with length_concat_equal [OF assms(8)]
  have "int (length (concat contents)) = int (nat n) * chunk_size a1" by simp
  also have "\<dots> = n * (content_length a1 div n)"
    using assms(2) info(4) by (simp add: Axel_def)
  also have "\<dots> = content_length a1" using assms(3) by simp
  finally have sz: "getsize (cwd w2) out = Some (content_length a1)"
    using out by (simp add: getsize_def)
  have "chunks a3 = replicate (nat n) None"
    "startcount a3 = replicate (nat n) (chunk_size a1)"
    by (simp_all add: a3_def a2_def)
  with m st l2 out sz show ?thesis by (simp add: exit_status_def)
qed

text \<open>A resource of ten bytes whose two part files are complete.\<close>

definition both_complete :: world where
  "both_complete =
     with_parts [(''f.part001'', ''56789''), (''f.part000'', ''01234'')]
       [''f.part001'', ''f.part000'']"

lemma get_file_info_both_complete:
  "get_file_info (Axel ''http://host/f'' 2) both_complete = (Inr planned_two, both_complete)"
proof -
  have "fst (get_file_info (Axel ''http://host/f'' 2) both_complete) = Inr planned_two"
    by code_simp
  then show ?thesis
    using get_file_info_world [of "Axel ''http://host/f'' 2" both_complete]
    by (metis prod.collapse)
qed

theorem complete_parts_are_stitched_witness:
  "get_file_info (Axel ''http://host/f'' 2) both_complete = (Inr planned_two, both_complete)
   \<and> exit_status (main ''http://host/f'' 2 both_complete) = Some 0
   \<and> get_log (snd (main ''http://host/f'' 2 both_complete)) = []
   \<and> map_of (cwd (snd (main ''http://host/f'' 2 both_complete))) ''f'' = Some ''0123456789''
   \<and> getsize (cwd (snd (main ''http://host/f'' 2 both_complete))) ''f'' = Some 10"
proof -
  let ?globs = "[''f.part001'', ''f.part000'']"
  have d: "(2::int) dvd content_length planned_two" by (simp add: planned_two_def)
  have g: "glob_reply both_complete (fmt_s (filename planned_two) @ ''.part*'') = ?globs"
    by (simp add: both_complete_def with_parts_def planned_two_def fmt_s_def)
  have n: "int (length ?globs) = 2" by simp
  have szs: "list_all (\<lambda>f. getsize (cwd both_complete) f = Some (chunk_size planned_two)) ?globs"
    by (simp add: both_complete_def with_parts_def planned_two_def getsize_def)
  have pn: "map (part_name (filename planned_two)) [0..<nat 2] = [''f.part000'', ''f.part001'']"
    by code_simp
  have cont: "map (map_of (cwd both_complete)) (map (part_name (filename planned_two)) [0..<nat 2])
      = map Some [''01234'', ''56789'']"
    unfolding pn by (simp add: both_complete_def with_parts_def)
  have lens: "list_all (\<lambda>c. int (length c) = chunk_size planned_two) [''01234'', ''56789'']"
    by (simp add: planned_two_def)
  have fn: "filename planned_two = Some ''f''" by (simp add: planned_two_def)
  have op: "openable ''f''" by (simp add: openable_def)
  have l: "get_log both_complete = []"
    by (simp add: both_complete_def with_parts_def ten_bytes_def)
  from complete_parts_are_stitched
         [OF get_file_info_both_complete _ d g n szs cont lens fn op]
  show ?thesis using get_file_info_both_complete l by (simp add: planned_two_def)
qed

end
